theory Spec2Isabelle
  imports Complex_Main "HOL-Library.Multiset"
begin

section \<open>Python string operations used by \<^verbatim>\<open>main.py\<close>\<close>

text \<open>
  A Python \<^verbatim>\<open>str\<close> is modelled as a \<^typ>\<open>string\<close>; one \<^typ>\<open>char\<close> stands for
  one code point below 256. \<open>is_space\<close> is \<^verbatim>\<open>str.isspace\<close> on that range: the
  characters that \<^verbatim>\<open>strip()\<close> and \<^verbatim>\<open>split()\<close> without arguments treat as
  whitespace.
\<close>

definition is_space :: "char \<Rightarrow> bool" where
  "is_space c \<longleftrightarrow> c \<in> {CHR 0x09, CHR 0x0A, CHR 0x0B, CHR 0x0C, CHR 0x0D,
                        CHR 0x1C, CHR 0x1D, CHR 0x1E, CHR 0x1F, CHR 0x20,
                        CHR 0x85, CHR 0xA0}"

text \<open>\<^verbatim>\<open>s.startswith(p)\<close> and the substring test \<^verbatim>\<open>sub in s\<close>.\<close>

definition starts_with :: "string \<Rightarrow> string \<Rightarrow> bool" where
  "starts_with p s \<longleftrightarrow> take (length p) s = p"

fun contains :: "string \<Rightarrow> string \<Rightarrow> bool" where
  "contains sub [] = (sub = [])"
| "contains sub (c # cs) = (starts_with sub (c # cs) \<or> contains sub cs)"

text \<open>\<^verbatim>\<open>s.strip()\<close>: leading and trailing whitespace removed.\<close>

definition py_strip :: "string \<Rightarrow> string" where
  "py_strip s = rev (dropWhile is_space (rev (dropWhile is_space s)))"

text \<open>
  \<^verbatim>\<open>s.split(sep)\<close> for a separator of one character (the source splits at a line
  feed and at a question mark): the list always has at least one element.
\<close>

fun split_on :: "char \<Rightarrow> string \<Rightarrow> string list" where
  "split_on sep [] = [] # []"
| "split_on sep (c # cs) =
     (if c = sep then [] # split_on sep cs
      else (case split_on sep cs of
              [] \<Rightarrow> [c] # []
            | w # ws \<Rightarrow> (c # w) # ws))"

text \<open>\<^verbatim>\<open>s.split(sep)[0]\<close>; never out of range, since the list is never empty.\<close>

definition first_field :: "char \<Rightarrow> string \<Rightarrow> string" where
  "first_field sep s = (case split_on sep s of [] \<Rightarrow> [] | w # _ \<Rightarrow> w)"

text \<open>
  \<^verbatim>\<open>s.split()\<close>: the maximal runs of non-whitespace characters, in order; an empty
  or blank string gives the empty list.
\<close>

fun py_split :: "string \<Rightarrow> string list" where
  "py_split [] = []"
| "py_split (c # cs) =
     (if is_space c then py_split cs
      else (case cs of
              [] \<Rightarrow> [c] # []
            | d # _ \<Rightarrow>
                (if is_space d then [c] # py_split cs
                 else (case py_split cs of
                         [] \<Rightarrow> [c] # []
                       | w # ws \<Rightarrow> (c # w) # ws))))"

text \<open>
  \<^verbatim>\<open>s.replace(old, new)\<close>: one scan from the left; at a position where \<open>old\<close>
  starts, \<open>new\<close> is written and the scan resumes after that occurrence, so the
  occurrences replaced do not overlap and the text written is not scanned again.
  With an empty \<open>old\<close>, Python writes \<open>new\<close> before every character and at the end.
\<close>

fun py_replace :: "string \<Rightarrow> string \<Rightarrow> string \<Rightarrow> string" where
  "py_replace old new [] = (if old = [] then new else [])"
| "py_replace old new (c # cs) =
     (if old = [] then new @ c # py_replace old new cs
      else if starts_with old (c # cs)
           then new @ py_replace old new (drop (length old - 1) cs)
           else c # py_replace old new cs)"

section \<open>Errors\<close>

text \<open>
  The exceptions that can arise in a run: a fault reported by the browser driver
  (with its message), the \<^verbatim>\<open>IndexError\<close> of \<^verbatim>\<open>name.split()[0]\<close> on a name without
  a token, and the exception raised when the login check fails. All of them are
  instances of \<^verbatim>\<open>Exception\<close>, which the handlers of the source catch; the
  cancellation of the coroutine and the other exceptions outside \<^verbatim>\<open>Exception\<close> are not
  modelled. \<open>str_of\<close> is \<^verbatim>\<open>str(e)\<close>.
\<close>

datatype error = DriverError string | IndexError | LoginFailed

fun str_of :: "error \<Rightarrow> string" where
  "str_of (DriverError m) = m"
| "str_of IndexError = ''list index out of range''"
| "str_of LoginFailed = ''Login falhou. Verifique credenciais ou CAPTCHA.''"

section \<open>Message composition\<close>

definition build_message :: "string \<Rightarrow> string \<Rightarrow> string \<Rightarrow> error + string" where
  "build_message template name title =
     (case py_split name of
        [] \<Rightarrow> Inl IndexError
      | first_name # _ \<Rightarrow>
          Inr (py_replace ''{cargo}'' (if title = [] then ''profissional'' else title)
                 (py_replace ''{nome}'' first_name template)))"

section \<open>Configuration, profiles and results\<close>

record run_request =
  email :: string
  password :: string
  keywords_of :: "string list"
  max_messages :: int
  delay_min :: int
  delay_max :: int
  dry_run :: bool
  message_template :: string

record profile =
  name :: string
  title :: string
  url :: string

record summary =
  mode :: string
  sum_totalSent :: int
  totalSkipped :: nat
  totalErrors :: nat

record run_response =
  success :: bool
  resp_dry_run :: bool
  resp_summary :: summary
  resp_would_send :: "(profile \<times> string) list"
  resp_sent :: "profile list"
  resp_skipped :: "(profile \<times> string) list"
  resp_errors :: "(profile \<times> string) list"

section \<open>The browser driver and the pacing clock\<close>

text \<open>
  Every call the program makes on the browser driver, and every sleep, is an event.
  A sleep carries the place in the source that asked for it and the duration slept.
\<close>

datatype site =
  AfterLogin | AfterSearch | BeforeProfile | AfterNavigate
  | AfterClick | AfterFill | AfterSend | AfterProfile

datatype event =
  Start | Launch | NewContext | NewPage
  | Goto string | PageFill string string | PageClick string | WaitForLoadState string
  | QuerySelectorAll string | HandleQuerySelector nat string
  | InnerText nat | GetAttribute nat string
  | QuerySelector string | Click nat | Fill nat string | Press nat string
  | Close | Stop
  | Sleep site real

text \<open>
  The driver is outside the program. It is modelled by what it answers to a call, given
  the events so far: a call either returns or raises with a message. Element handles
  are numbers. \<open>page_url\<close> is the attribute \<^verbatim>\<open>page.url\<close>, \<open>sample\<close> the number drawn by
  \<^verbatim>\<open>random.random()\<close> inside \<^verbatim>\<open>random.uniform\<close>.
\<close>

record driver =
  unit_op :: "event list \<Rightarrow> event \<Rightarrow> string option"
  handle_op :: "event list \<Rightarrow> event \<Rightarrow> string + nat option"
  handles_op :: "event list \<Rightarrow> event \<Rightarrow> string + nat list"
  text_op :: "event list \<Rightarrow> event \<Rightarrow> string + string"
  attr_op :: "event list \<Rightarrow> event \<Rightarrow> string + string option"
  page_url :: "event list \<Rightarrow> string"
  sample :: "event list \<Rightarrow> real"

text \<open>The dictionary \<^verbatim>\<open>results\<close> of the source, together with the events so far.\<close>

record state =
  sent :: "profile list"
  would_send :: "(profile \<times> string) list"
  skipped :: "(profile \<times> string) list"
  errors :: "(profile \<times> string) list"
  totalSent :: int
  trace :: "event list"

type_synonym 'a io = "state \<Rightarrow> (error + 'a) \<times> state"

definition io_return :: "'a \<Rightarrow> 'a io" where
  "io_return x s = (Inr x, s)"

definition io_raise :: "error \<Rightarrow> 'a io" where
  "io_raise e s = (Inl e, s)"

definition io_bind :: "'a io \<Rightarrow> ('a \<Rightarrow> 'b io) \<Rightarrow> 'b io" where
  "io_bind f g s = (case f s of (Inl e, s') \<Rightarrow> (Inl e, s') | (Inr x, s') \<Rightarrow> g x s')"

definition io_step :: "(state \<Rightarrow> state) \<Rightarrow> unit io" where
  "io_step f s = (Inr (), f s)"

definition io_lift :: "error + 'a \<Rightarrow> 'a io" where
  "io_lift r s = (r, s)"

definition record_event :: "event \<Rightarrow> state \<Rightarrow> state" where
  "record_event c s = s\<lparr>trace := trace s @ [c]\<rparr>"

definition call_unit :: "driver \<Rightarrow> event \<Rightarrow> unit io" where
  "call_unit drv c s =
     ((case unit_op drv (trace s) c of None \<Rightarrow> Inr () | Some m \<Rightarrow> Inl (DriverError m)),
      record_event c s)"

definition call_handle :: "driver \<Rightarrow> event \<Rightarrow> nat option io" where
  "call_handle drv c s =
     ((case handle_op drv (trace s) c of Inr r \<Rightarrow> Inr r | Inl m \<Rightarrow> Inl (DriverError m)),
      record_event c s)"

definition call_handles :: "driver \<Rightarrow> event \<Rightarrow> nat list io" where
  "call_handles drv c s =
     ((case handles_op drv (trace s) c of Inr r \<Rightarrow> Inr r | Inl m \<Rightarrow> Inl (DriverError m)),
      record_event c s)"

definition call_text :: "driver \<Rightarrow> event \<Rightarrow> string io" where
  "call_text drv c s =
     ((case text_op drv (trace s) c of Inr r \<Rightarrow> Inr r | Inl m \<Rightarrow> Inl (DriverError m)),
      record_event c s)"

definition call_attr :: "driver \<Rightarrow> event \<Rightarrow> string option io" where
  "call_attr drv c s =
     ((case attr_op drv (trace s) c of Inr r \<Rightarrow> Inr r | Inl m \<Rightarrow> Inl (DriverError m)),
      record_event c s)"

text \<open>
  \<^verbatim>\<open>_random_delay(min_s, max_s)\<close> sleeps \<^verbatim>\<open>random.uniform(min_s, max_s)\<close> seconds,
  which Python computes as \<^verbatim>\<open>min_s + (max_s - min_s) * random()\<close>. Durations are
  real numbers here; the rounding of floating point is not modelled.
\<close>

definition random_delay :: "driver \<Rightarrow> site \<Rightarrow> real \<Rightarrow> real \<Rightarrow> state \<Rightarrow> state" where
  "random_delay drv st min_s max_s s =
     record_event (Sleep st (min_s + (max_s - min_s) * sample drv (trace s))) s"

section \<open>Selectors and addresses\<close>

definition login_url :: string where
  "login_url = ''https://www.linkedin.com/login''"

definition sel_submit :: string where
  \<open>sel_submit = ''[type="submit"]''\<close>

definition sel_results :: string where
  "sel_results = ''.reusable-search__result-container''"

definition sel_title_link :: string where
  "sel_title_link = ''.entity-result__title-text a''"

definition sel_subtitle :: string where
  "sel_subtitle = ''.entity-result__primary-subtitle''"

definition btn_selectors :: "string list" where
  \<open>btn_selectors =
     [''button:has-text("Mensagem")'',
      ''button:has-text("Message")'',
      ''.pvs-profile-actions button[aria-label*="essage"]'']\<close>

definition sel_msg_form :: string where
  "sel_msg_form = ''.msg-form__contenteditable''"

definition sel_textbox :: string where
  \<open>sel_textbox = ''[role="textbox"]''\<close>

definition sel_send_button :: string where
  "sel_send_button = ''.msg-form__send-button''"

definition sel_submit_enviar :: string where
  \<open>sel_submit_enviar = ''button[type="submit"]:has-text("Enviar")''\<close>

definition search_url :: "string \<Rightarrow> string" where
  "search_url keyword =
     ''https://www.linkedin.com/search/results/people/'' @
     ''?keywords='' @ py_replace '' '' ''%20'' keyword @
     ''&origin=GLOBAL_SEARCH_HEADER''"

section \<open>Login\<close>

definition logged_in :: "driver \<Rightarrow> state \<Rightarrow> bool" where
  "logged_in drv s \<longleftrightarrow>
     contains ''feed'' (page_url drv (trace s)) \<or> contains ''mynetwork'' (page_url drv (trace s))"

text \<open>The five driver calls that submit the credentials.\<close>

definition submit_login :: "run_request \<Rightarrow> driver \<Rightarrow> unit io" where
  "submit_login cfg drv =
     io_bind (call_unit drv (Goto login_url)) (\<lambda>_.
     io_bind (call_unit drv (PageFill ''#username'' (email cfg))) (\<lambda>_.
     io_bind (call_unit drv (PageFill ''#password'' (password cfg))) (\<lambda>_.
     io_bind (call_unit drv (PageClick sel_submit)) (\<lambda>_.
     call_unit drv (WaitForLoadState ''networkidle'')))))"

text \<open>
  The login: after the pacing delay the address of the page decides; when it names
  neither the feed nor the network page, the browser is closed and the run raises.
\<close>

definition login :: "run_request \<Rightarrow> driver \<Rightarrow> unit io" where
  "login cfg drv =
     io_bind (submit_login cfg drv) (\<lambda>_.
     io_bind (io_step (random_delay drv AfterLogin 2 4)) (\<lambda>_.
     (\<lambda>s. if logged_in drv s then io_return () s
          else io_bind (call_unit drv Close) (\<lambda>_. io_raise LoginFailed) s)))"

section \<open>Extraction of profiles from a result listing\<close>

text \<open>The body of the \<^verbatim>\<open>try\<close> for one result entry: the profile to append, if any.\<close>

definition extract_profile :: "driver \<Rightarrow> nat \<Rightarrow> profile option io" where
  "extract_profile drv h =
     io_bind (call_handle drv (HandleQuerySelector h sel_title_link)) (\<lambda>name_el.
     io_bind (call_handle drv (HandleQuerySelector h sel_subtitle)) (\<lambda>title_el.
     io_bind (call_handle drv (HandleQuerySelector h sel_title_link)) (\<lambda>link_el.
       case (name_el, link_el) of
         (Some n, Some l) \<Rightarrow>
           io_bind (call_text drv (InnerText n)) (\<lambda>raw_name.
           io_bind (case title_el of
                      Some t \<Rightarrow> io_bind (call_text drv (InnerText t)) (\<lambda>x. io_return (py_strip x))
                    | None \<Rightarrow> io_return []) (\<lambda>title_text.
           io_bind (call_attr drv (GetAttribute l ''href'')) (\<lambda>href.
             case href of
               Some hr \<Rightarrow>
                 if hr \<noteq> [] \<and> contains ''/in/'' hr
                 then io_return
                        (Some \<lparr>name = py_strip (first_field CHR 0x0A (py_strip raw_name)),
                               title = title_text,
                               url = first_field CHR ''?'' hr\<rparr>)
                 else io_return None
             | None \<Rightarrow> io_return None)))
       | _ \<Rightarrow> io_return None)))"

text \<open>\<^verbatim>\<open>except Exception: continue\<close>: a fault while reading an entry drops the entry.\<close>

definition extract_entry :: "driver \<Rightarrow> nat \<Rightarrow> state \<Rightarrow> profile option \<times> state" where
  "extract_entry drv h s =
     (case extract_profile drv h s of
        (Inl e, s') \<Rightarrow> (None, s')
      | (Inr r, s') \<Rightarrow> (r, s'))"

fun extract_profiles :: "driver \<Rightarrow> nat list \<Rightarrow> state \<Rightarrow> profile list \<times> state" where
  "extract_profiles drv [] s = ([], s)"
| "extract_profiles drv (h # hs) s =
     (case extract_entry drv h s of
        (r, s') \<Rightarrow>
          (case extract_profiles drv hs s' of
             (ps, s'') \<Rightarrow> ((case r of None \<Rightarrow> ps | Some p \<Rightarrow> p # ps), s'')))"

section \<open>Processing one profile\<close>

definition add_skipped :: "profile \<Rightarrow> string \<Rightarrow> state \<Rightarrow> state" where
  "add_skipped p reason s = s\<lparr>skipped := skipped s @ [(p, reason)]\<rparr>"

definition add_would_send :: "profile \<Rightarrow> string \<Rightarrow> state \<Rightarrow> state" where
  "add_would_send p preview s =
     s\<lparr>would_send := would_send s @ [(p, preview)], totalSent := totalSent s + 1\<rparr>"

definition add_sent :: "profile \<Rightarrow> state \<Rightarrow> state" where
  "add_sent p s = s\<lparr>sent := sent s @ [p], totalSent := totalSent s + 1\<rparr>"

definition add_error :: "profile \<Rightarrow> error \<Rightarrow> state \<Rightarrow> state" where
  "add_error p e s = s\<lparr>errors := errors s @ [(p, str_of e)]\<rparr>"

text \<open>
  How the body of the \<^verbatim>\<open>try\<close> ends when it does not raise: at a \<^verbatim>\<open>continue\<close>,
  which goes to the next profile at once, or at its last statement, after which the
  statements that follow the \<^verbatim>\<open>try\<close> run.
\<close>

datatype flow = Continue | FallThrough

text \<open>The loop over \<^verbatim>\<open>btn_selectors\<close>: the first selector that finds an element wins.\<close>

fun query_first :: "driver \<Rightarrow> string list \<Rightarrow> nat option io" where
  "query_first drv [] s = (Inr None, s)"
| "query_first drv (sel # sels) s =
     (case call_handle drv (QuerySelector sel) s of
        (Inl e, s') \<Rightarrow> (Inl e, s')
      | (Inr (Some el), s') \<Rightarrow> (Inr (Some el), s')
      | (Inr None, s') \<Rightarrow> query_first drv sels s')"

text \<open>A query and, if it finds nothing, a second one.\<close>

definition query_or :: "driver \<Rightarrow> string \<Rightarrow> string \<Rightarrow> nat option io" where
  "query_or drv sel1 sel2 =
     io_bind (call_handle drv (QuerySelector sel1)) (\<lambda>el.
       case el of
         Some x \<Rightarrow> io_return (Some x)
       | None \<Rightarrow> call_handle drv (QuerySelector sel2))"

definition send_message :: "driver \<Rightarrow> profile \<Rightarrow> nat \<Rightarrow> string \<Rightarrow> flow io" where
  "send_message drv p msg_btn message_preview =
     io_bind (call_unit drv (Click msg_btn)) (\<lambda>_.
     io_bind (io_step (random_delay drv AfterClick 1 2)) (\<lambda>_.
     io_bind (query_or drv sel_msg_form sel_textbox) (\<lambda>msg_box.
       case msg_box of
         None \<Rightarrow> (\<lambda>s. (Inr Continue, add_skipped p ''Campo de texto nao encontrado'' s))
       | Some box \<Rightarrow>
           io_bind (call_unit drv (Click box)) (\<lambda>_.
           io_bind (call_unit drv (Fill box message_preview)) (\<lambda>_.
           io_bind (io_step (random_delay drv AfterFill 0.8 1.5)) (\<lambda>_.
           io_bind (query_or drv sel_send_button sel_submit_enviar) (\<lambda>send_btn.
           io_bind (case send_btn of
                      Some b \<Rightarrow> call_unit drv (Click b)
                    | None \<Rightarrow> call_unit drv (Press box ''Control+Enter'')) (\<lambda>_.
           io_bind (io_step (random_delay drv AfterSend 1 2)) (\<lambda>_.
           (\<lambda>s. (Inr FallThrough, add_sent p s)))))))))))"

text \<open>The body of the \<^verbatim>\<open>try\<close> for one profile.\<close>

definition profile_body :: "run_request \<Rightarrow> driver \<Rightarrow> profile \<Rightarrow> flow io" where
  "profile_body cfg drv p =
     io_bind (call_unit drv (Goto (url p))) (\<lambda>_.
     io_bind (call_unit drv (WaitForLoadState ''networkidle'')) (\<lambda>_.
     io_bind (io_step (random_delay drv AfterNavigate 2 3)) (\<lambda>_.
     io_bind (query_first drv btn_selectors) (\<lambda>msg_btn.
       case msg_btn of
         None \<Rightarrow>
           (\<lambda>s. (Inr Continue,
                 add_skipped p ''Botao mensagem nao encontrado (nao e conexao)'' s))
       | Some b \<Rightarrow>
           io_bind (io_lift (build_message (message_template cfg) (name p) (title p)))
             (\<lambda>message_preview.
                if dry_run cfg
                then (\<lambda>s. (Inr Continue, add_would_send p message_preview s))
                else send_message drv p b message_preview)))))"

text \<open>
  One iteration of the loop over the profiles, after the quota check: the pacing delay,
  the \<^verbatim>\<open>try\<close> with its handler, and the delay that follows the \<^verbatim>\<open>try\<close>, which a
  \<^verbatim>\<open>continue\<close> inside the \<^verbatim>\<open>try\<close> leaves out.
\<close>

definition pace_before :: "run_request \<Rightarrow> driver \<Rightarrow> state \<Rightarrow> state" where
  "pace_before cfg drv =
     random_delay drv BeforeProfile (real_of_int (delay_min cfg)) (real_of_int (delay_max cfg))"

definition pace_after :: "run_request \<Rightarrow> driver \<Rightarrow> state \<Rightarrow> state" where
  "pace_after cfg drv =
     random_delay drv AfterProfile (real_of_int (delay_min cfg + 2))
       (real_of_int (delay_max cfg + 3))"

definition process_profile :: "run_request \<Rightarrow> driver \<Rightarrow> profile \<Rightarrow> state \<Rightarrow> state" where
  "process_profile cfg drv p s =
     (case profile_body cfg drv p (pace_before cfg drv s) of
        (Inl e, s') \<Rightarrow> pace_after cfg drv (add_error p e s')
      | (Inr Continue, s') \<Rightarrow> s'
      | (Inr FallThrough, s') \<Rightarrow> pace_after cfg drv s')"

fun profile_loop :: "run_request \<Rightarrow> driver \<Rightarrow> profile list \<Rightarrow> state \<Rightarrow> state" where
  "profile_loop cfg drv [] s = s"
| "profile_loop cfg drv (p # ps) s =
     (if totalSent s \<ge> max_messages cfg then s
      else profile_loop cfg drv ps (process_profile cfg drv p s))"

section \<open>The run\<close>

text \<open>The navigation to the result listing of a keyword, and the entries it shows.\<close>

definition open_listing :: "driver \<Rightarrow> string \<Rightarrow> nat list io" where
  "open_listing drv keyword =
     io_bind (call_unit drv (Goto (search_url keyword))) (\<lambda>_.
     io_bind (call_unit drv (WaitForLoadState ''networkidle'')) (\<lambda>_.
     io_bind (io_step (random_delay drv AfterSearch 2 3)) (\<lambda>_.
     call_handles drv (QuerySelectorAll sel_results))))"

text \<open>One iteration of the loop over the keywords, after the quota check.\<close>

definition search_keyword :: "run_request \<Rightarrow> driver \<Rightarrow> string \<Rightarrow> unit io" where
  "search_keyword cfg drv keyword =
     io_bind (open_listing drv keyword) (\<lambda>handles.
     (\<lambda>s. case extract_profiles drv handles s of
            (profiles, s') \<Rightarrow> (Inr (), profile_loop cfg drv profiles s')))"

fun keyword_loop :: "run_request \<Rightarrow> driver \<Rightarrow> string list \<Rightarrow> unit io" where
  "keyword_loop cfg drv [] s = (Inr (), s)"
| "keyword_loop cfg drv (keyword # rest) s =
     (if totalSent s \<ge> max_messages cfg then (Inr (), s)
      else (case search_keyword cfg drv keyword s of
              (Inl e, s') \<Rightarrow> (Inl e, s')
            | (Inr _, s') \<Rightarrow> keyword_loop cfg drv rest s'))"

definition initial :: state where
  "initial = \<lparr>sent = [], would_send = [], skipped = [], errors = [], totalSent = 0, trace = []\<rparr>"

definition response :: "run_request \<Rightarrow> state \<Rightarrow> run_response" where
  "response cfg s =
     \<lparr>success = True,
      resp_dry_run = dry_run cfg,
      resp_summary =
        \<lparr>mode = (if dry_run cfg then ''dry_run (simulacao)'' else ''real (mensagens enviadas)''),
         sum_totalSent = totalSent s,
         totalSkipped = length (skipped s),
         totalErrors = length (errors s)\<rparr>,
      resp_would_send = would_send s,
      resp_sent = sent s,
      resp_skipped = skipped s,
      resp_errors = errors s\<rparr>"

text \<open>The statements inside \<^verbatim>\<open>async with async_playwright() as p\<close>.\<close>

definition open_page :: "driver \<Rightarrow> unit io" where
  "open_page drv =
     io_bind (call_unit drv Launch) (\<lambda>_.
     io_bind (call_unit drv NewContext) (\<lambda>_.
     call_unit drv NewPage))"

definition session :: "run_request \<Rightarrow> driver \<Rightarrow> unit io" where
  "session cfg drv =
     io_bind (open_page drv) (\<lambda>_.
     io_bind (login cfg drv) (\<lambda>_.
     io_bind (keyword_loop cfg drv (keywords_of cfg)) (\<lambda>_.
     call_unit drv Close)))"

text \<open>
  \<^verbatim>\<open>_run_automation\<close>: the context manager is entered (\<open>Start\<close>), the session runs, the
  context manager is left (\<open>Stop\<close>) whether the session raised or not, and the response
  is built from the results. The state reached is returned beside the outcome, so that
  the events of a failed run can be inspected.
\<close>

definition run_automation :: "run_request \<Rightarrow> driver \<Rightarrow> (error + run_response) \<times> state" where
  "run_automation cfg drv =
     (case call_unit drv Start initial of
        (Inl e, s) \<Rightarrow> (Inl e, s)
      | (Inr _, s) \<Rightarrow>
          (case session cfg drv s of
             (r, s1) \<Rightarrow>
               (case call_unit drv Stop s1 of
                  (Inl e2, s2) \<Rightarrow> (Inl e2, s2)
                | (Inr _, s2) \<Rightarrow>
                    (case r of
                       Inl e \<Rightarrow> (Inl e, s2)
                     | Inr _ \<Rightarrow> (Inr (response cfg s2), s2)))))"

section \<open>Reference definitions for the properties\<close>

text \<open>
  Substitution of both placeholders at once, as the specification words it: one scan of
  the template, in which \<^verbatim>\<open>{nome}\<close> becomes the first name and \<^verbatim>\<open>{cargo}\<close> the role,
  and the text written is not scanned again.
\<close>

fun substitute :: "string \<Rightarrow> string \<Rightarrow> string \<Rightarrow> string" where
  "substitute nome cargo [] = []"
| "substitute nome cargo (c # cs) =
     (if starts_with ''{nome}'' (c # cs) then nome @ substitute nome cargo (drop 5 cs)
      else if starts_with ''{cargo}'' (c # cs) then cargo @ substitute nome cargo (drop 6 cs)
      else c # substitute nome cargo cs)"

text \<open>A template in which every opening brace begins one of the two placeholders.\<close>

fun placeholders_only :: "string \<Rightarrow> bool" where
  "placeholders_only [] = True"
| "placeholders_only (c # cs) =
     (if starts_with ''{nome}'' (c # cs) then placeholders_only (drop 5 cs)
      else if starts_with ''{cargo}'' (c # cs) then placeholders_only (drop 6 cs)
      else c \<noteq> CHR ''{'' \<and> placeholders_only cs)"

text \<open>
  The bounds that each place of the source passes to \<^verbatim>\<open>_random_delay\<close>: two of them
  come from the configuration, the other six are constants of the source.
\<close>

fun site_bounds :: "run_request \<Rightarrow> site \<Rightarrow> real \<times> real" where
  "site_bounds cfg AfterLogin = (2, 4)"
| "site_bounds cfg AfterSearch = (2, 3)"
| "site_bounds cfg BeforeProfile = (real_of_int (delay_min cfg), real_of_int (delay_max cfg))"
| "site_bounds cfg AfterNavigate = (2, 3)"
| "site_bounds cfg AfterClick = (1, 2)"
| "site_bounds cfg AfterFill = (0.8, 1.5)"
| "site_bounds cfg AfterSend = (1, 2)"
| "site_bounds cfg AfterProfile =
     (real_of_int (delay_min cfg + 2), real_of_int (delay_max cfg + 3))"

text \<open>A duration that \<^verbatim>\<open>random.uniform\<close> can produce at a place, from some sample.\<close>

definition paced :: "run_request \<Rightarrow> driver \<Rightarrow> site \<Rightarrow> real \<Rightarrow> bool" where
  "paced cfg drv st d \<longleftrightarrow>
     (\<exists>h. d = fst (site_bounds cfg st) +
               (snd (site_bounds cfg st) - fst (site_bounds cfg st)) * sample drv h)"

text \<open>
  What a part of the program may emit: sleeps at the places \<open>S\<close>, paced as the place
  says, interactions with an element only in a real run, and any other driver call.
\<close>

fun event_ok :: "run_request \<Rightarrow> driver \<Rightarrow> site set \<Rightarrow> event \<Rightarrow> bool" where
  "event_ok cfg drv S (Sleep st d) = (st \<in> S \<and> paced cfg drv st d)"
| "event_ok cfg drv S (Click el) = (\<not> dry_run cfg)"
| "event_ok cfg drv S (Fill el txt) = (\<not> dry_run cfg)"
| "event_ok cfg drv S (Press el ks) = (\<not> dry_run cfg)"
| "event_ok cfg drv S e = True"

text \<open>A computation that only extends the trace, by events that satisfy \<open>E\<close>.\<close>

definition emits :: "(event \<Rightarrow> bool) \<Rightarrow> 'a io \<Rightarrow> bool" where
  "emits E f \<longleftrightarrow>
     (\<forall>s. \<exists>evs. snd (f s) = s\<lparr>trace := trace s @ evs\<rparr> \<and> list_all E evs)"

text \<open>The places at which the body of the \<^verbatim>\<open>try\<close> for one profile sleeps.\<close>

definition body_sites :: "site set" where
  "body_sites = {AfterNavigate, AfterClick, AfterFill, AfterSend}"

text \<open>
  How the body of the \<^verbatim>\<open>try\<close> for the profile \<open>p\<close> can end, where \<open>t\<close> is the
  state before it with the trace extended: either it raises and the results are
  untouched, or it appends \<open>p\<close> to one list.
\<close>

fun settled ::
  "run_request \<Rightarrow> profile \<Rightarrow> state \<Rightarrow> (error + flow) \<times> state \<Rightarrow> bool" where
  "settled cfg p t (Inl e, s') = (s' = t)"
| "settled cfg p t (Inr Continue, s') =
     ((\<exists>reason. s' = add_skipped p reason t) \<or>
      (dry_run cfg \<and>
       (\<exists>m. build_message (message_template cfg) (name p) (title p) = Inr m \<and>
            s' = add_would_send p m t)))"
| "settled cfg p t (Inr FallThrough, s') = (\<not> dry_run cfg \<and> s' = add_sent p t)"

definition settles :: "run_request \<Rightarrow> driver \<Rightarrow> profile \<Rightarrow> flow io \<Rightarrow> bool" where
  "settles cfg drv p f \<longleftrightarrow>
     (\<forall>s. \<exists>evs. list_all (event_ok cfg drv body_sites) evs \<and>
                settled cfg p (s\<lparr>trace := trace s @ evs\<rparr>) (f s))"

text \<open>
  How one iteration of the loop over the profiles can end, where \<open>t\<close> is the state
  before it with the trace extended: the profile is appended to exactly one list.
\<close>

definition resolved :: "run_request \<Rightarrow> profile \<Rightarrow> state \<Rightarrow> state \<Rightarrow> bool" where
  "resolved cfg p t s' \<longleftrightarrow>
     (\<exists>e. s' = add_error p e t) \<or>
     (\<exists>reason. s' = add_skipped p reason t) \<or>
     (dry_run cfg \<and>
      (\<exists>m. build_message (message_template cfg) (name p) (title p) = Inr m \<and>
           s' = add_would_send p m t)) \<or>
     (\<not> dry_run cfg \<and> s' = add_sent p t)"

text \<open>
  A profile enters the outreach state machine at the pacing delay before its visit;
  \<open>entered\<close> counts these entries in a trace, \<open>outcomes\<close> the entries of the four lists,
  and \<open>outcome_profiles\<close> collects the profiles of the four lists.
\<close>

fun is_entry :: "event \<Rightarrow> bool" where
  "is_entry (Sleep st d) = (st = BeforeProfile)"
| "is_entry e = False"

definition entered :: "event list \<Rightarrow> nat" where
  "entered evs = length (filter is_entry evs)"

definition outcomes :: "state \<Rightarrow> nat" where
  "outcomes s = length (would_send s) + length (sent s) + length (skipped s) + length (errors s)"

definition outcome_profiles :: "state \<Rightarrow> profile multiset" where
  "outcome_profiles s =
     mset (map fst (would_send s)) + mset (sent s) +
     mset (map fst (skipped s)) + mset (map fst (errors s))"


text \<open>
  What holds between a state of the run and a later one: the trace is extended by
  admissible events, there is one more outcome for each entry, a dry run leaves
  \<open>sent\<close> alone and a real run leaves \<open>would_send\<close> alone, the counter does not
  decrease, and a counter within the quota stays within it.
\<close>

definition progress :: "run_request \<Rightarrow> driver \<Rightarrow> state \<Rightarrow> state \<Rightarrow> bool" where
  "progress cfg drv s s' \<longleftrightarrow>
     (\<exists>evs. trace s' = trace s @ evs \<and> list_all (event_ok cfg drv UNIV) evs \<and>
            outcomes s' = outcomes s + entered evs) \<and>
     (dry_run cfg \<longrightarrow> sent s' = sent s) \<and>
     (\<not> dry_run cfg \<longrightarrow> would_send s' = would_send s) \<and>
     totalSent s \<le> totalSent s' \<and>
     (totalSent s \<le> max_messages cfg \<longrightarrow> totalSent s' \<le> max_messages cfg)"

definition advances :: "run_request \<Rightarrow> driver \<Rightarrow> 'a io \<Rightarrow> bool" where
  "advances cfg drv f \<longleftrightarrow> (\<forall>s. progress cfg drv s (snd (f s)))"

section \<open>Concrete runs\<close>

text \<open>
  A configuration and some drivers on which the program is evaluated. The listing has two
  entries: the first is named ``Maria Clara Souza'' (followed by a second line) and has
  a subtitle, the second has a blank name and no subtitle. \<open>current_url\<close> is the address
  of the last navigation.
\<close>

definition cfg_demo :: run_request where
  "cfg_demo =
     \<lparr>email = ''ana@example.com'', password = ''secret'',
      keywords_of = [''data engineer''], max_messages = 2,
      delay_min = 3, delay_max = 7, dry_run = True,
      message_template = ''Ola {nome}, vi seu trabalho como {cargo}.''\<rparr>"

fun current_url :: "event list \<Rightarrow> string" where
  "current_url [] = []"
| "current_url (e # es) =
     (case current_url es of
        [] \<Rightarrow> (case e of Goto u \<Rightarrow> u | _ \<Rightarrow> [])
      | u # us \<Rightarrow> u # us)"

definition url_maria :: string where
  "url_maria = ''https://www.linkedin.com/in/maria''"

definition url_blank :: string where
  "url_blank = ''https://www.linkedin.com/in/anon''"

text \<open>
  Every call returns; the login lands on the feed; each profile page shows a message
  button (element 9), a text box (element 8) and a send button (element 7).
\<close>

definition drv_connected :: driver where
  "drv_connected =
     \<lparr>unit_op = (\<lambda>h c. None),
      handle_op = (\<lambda>h c. case c of
          HandleQuerySelector e sel \<Rightarrow>
            if sel = sel_subtitle then (if e = 1 then Inr (Some 11) else Inr None)
            else Inr (Some e)
        | QuerySelector sel \<Rightarrow>
            if sel = sel_msg_form then Inr (Some 8)
            else if sel = sel_send_button then Inr (Some 7)
            else Inr (Some 9)
        | _ \<Rightarrow> Inr None),
      handles_op = (\<lambda>h c. Inr [1, 2]),
      text_op = (\<lambda>h c. case c of
          InnerText e \<Rightarrow>
            if e = 1 then Inr ('' Maria Clara Souza'' @ [CHR 0x0A] @ ''Ver perfil'')
            else if e = 11 then Inr '' Engenheira de Dados ''
            else Inr ''  ''
        | _ \<Rightarrow> Inr []),
      attr_op = (\<lambda>h c. case c of
          GetAttribute e a \<Rightarrow>
            if e = 1 then Inr (Some (url_maria @ ''?trk=search''))
            else Inr (Some url_blank)
        | _ \<Rightarrow> Inr None),
      page_url = (\<lambda>h. ''https://www.linkedin.com/feed/''),
      sample = (\<lambda>h. 1 / 2)\<rparr>"

text \<open>The same, but Maria's page shows no message button: she is not a connection.\<close>

definition drv_stranger :: driver where
  "drv_stranger =
     drv_connected
       \<lparr>handle_op := (\<lambda>h c. case c of
          QuerySelector sel \<Rightarrow>
            if current_url h = url_maria then Inr None else Inr (Some 9)
        | _ \<Rightarrow> handle_op drv_connected h c)\<rparr>"

text \<open>The same as \<open>drv_connected\<close>, but the login lands on a checkpoint page.\<close>

definition drv_checkpoint :: driver where
  "drv_checkpoint =
     drv_connected\<lparr>page_url := (\<lambda>h. ''https://www.linkedin.com/checkpoint/challenge'')\<rparr>"

text \<open>The same as \<open>drv_connected\<close>, but navigation to a profile page fails.\<close>

definition drv_offline :: driver where
  "drv_offline =
     drv_connected
       \<lparr>unit_op := (\<lambda>h c. case c of
          Goto u \<Rightarrow> if contains ''/in/'' u then Some ''net::ERR_ABORTED'' else None
        | _ \<Rightarrow> None)\<rparr>"

text \<open>The two profiles that the listing yields.\<close>

definition maria :: profile where
  "maria = \<lparr>name = ''Maria Clara Souza'', title = ''Engenheira de Dados'', url = url_maria\<rparr>"

definition anon :: profile where
  "anon = \<lparr>name = [], title = [], url = url_blank\<rparr>"

fun is_sleep :: "event \<Rightarrow> bool" where
  "is_sleep (Sleep st d) = True"
| "is_sleep e = False"

text \<open>The events of the login and of the search in these runs.\<close>

definition demo_login_trace :: "event list" where
  "demo_login_trace =
     [Start, Launch, NewContext, NewPage, Goto login_url,
      PageFill ''#username'' ''ana@example.com'', PageFill ''#password'' ''secret'',
      PageClick sel_submit, WaitForLoadState ''networkidle'', Sleep AfterLogin 3]"

definition demo_search_trace :: "event list" where
  "demo_search_trace =
     [Goto (search_url ''data engineer''), WaitForLoadState ''networkidle'',
      Sleep AfterSearch (5 / 2), QuerySelectorAll sel_results,
      HandleQuerySelector 1 sel_title_link, HandleQuerySelector 1 sel_subtitle,
      HandleQuerySelector 1 sel_title_link, InnerText 1, InnerText 11,
      GetAttribute 1 ''href'',
      HandleQuerySelector 2 sel_title_link, HandleQuerySelector 2 sel_subtitle,
      HandleQuerySelector 2 sel_title_link, InnerText 2, GetAttribute 2 ''href'']"

text \<open>What the dry run returns when Maria is not a connection, and when she is.\<close>

definition stranger_response :: run_response where
  "stranger_response =
     \<lparr>success = True, resp_dry_run = True,
      resp_summary = \<lparr>mode = ''dry_run (simulacao)'', sum_totalSent = 0,
                       totalSkipped = 1, totalErrors = 1\<rparr>,
      resp_would_send = [], resp_sent = [],
      resp_skipped = [(maria, ''Botao mensagem nao encontrado (nao e conexao)'')],
      resp_errors = [(anon, ''list index out of range'')]\<rparr>"

definition connected_response :: run_response where
  "connected_response =
     \<lparr>success = True, resp_dry_run = True,
      resp_summary = \<lparr>mode = ''dry_run (simulacao)'', sum_totalSent = 1,
                       totalSkipped = 0, totalErrors = 1\<rparr>,
      resp_would_send = [(maria, ''Ola Maria, vi seu trabalho como Engenheira de Dados.'')],
      resp_sent = [], resp_skipped = [],
      resp_errors = [(anon, ''list index out of range'')]\<rparr>"

section \<open>Strings\<close>

lemma starts_with_Nil [simp]: "starts_with [] s"
  by (simp add: starts_with_def)

lemma starts_with_Cons_Nil [simp]: "\<not> starts_with (a # p) []"
  by (simp add: starts_with_def)

lemma starts_with_Cons [simp]: "starts_with (a # p) (c # cs) \<longleftrightarrow> a = c \<and> starts_with p cs"
  by (auto simp: starts_with_def)

lemma starts_with_append: "starts_with p s \<Longrightarrow> s = p @ drop (length p) s"
  by (metis append_take_drop_id starts_with_def)

lemma replace_cargo_skip:
  "CHR ''{'' \<notin> set tok \<Longrightarrow>
   py_replace ''{cargo}'' new (tok @ rest) = tok @ py_replace ''{cargo}'' new rest"
  by (induction tok) auto

lemma replace_nome_over_cargo:
  "py_replace ''{nome}'' new (''{cargo}'' @ rest) = ''{cargo}'' @ py_replace ''{nome}'' new rest"
  by simp

lemma replace_cargo_at:
  "py_replace ''{cargo}'' new (''{cargo}'' @ rest) = new @ py_replace ''{cargo}'' new rest"
  by simp

text \<open>
  When the first name has no opening brace and every opening brace of the template
  begins a placeholder, the two replacements of the source, one after the other, are the
  substitution of both placeholders at once.
\<close>

lemma sequential_is_simultaneous:
  "placeholders_only t \<Longrightarrow> CHR ''{'' \<notin> set tok \<Longrightarrow>
   py_replace ''{cargo}'' cargo (py_replace ''{nome}'' tok t) = substitute tok cargo t"
proof (induction tok cargo t rule: substitute.induct)
  case (1 nome cargo)
  then show ?case by simp
next
  case (2 nome cargo c cs)
  show ?case
  proof (cases "starts_with ''{nome}'' (c # cs)")
    case True
    have r: "py_replace ''{nome}'' nome (c # cs) = nome @ py_replace ''{nome}'' nome (drop 5 cs)"
      using True by (simp add: eval_nat_numeral del: starts_with_Cons)
    have s: "substitute nome cargo (c # cs) = nome @ substitute nome cargo (drop 5 cs)"
      using True by (simp add: eval_nat_numeral del: starts_with_Cons)
    have p: "placeholders_only (drop 5 cs)"
      using True "2.prems"(1) by (simp add: eval_nat_numeral del: starts_with_Cons)
    show ?thesis
      unfolding r s using "2.IH"(1)[OF True p "2.prems"(2)] "2.prems"(2)
      by (simp add: replace_cargo_skip)
  next
    case False
    note nn = this
    show ?thesis
    proof (cases "starts_with ''{cargo}'' (c # cs)")
      case True
      then have e: "c # cs = ''{cargo}'' @ drop 6 cs"
        using starts_with_append[of "''{cargo}''" "c # cs"] by (simp add: eval_nat_numeral)
      have r: "py_replace ''{cargo}'' cargo (py_replace ''{nome}'' nome (c # cs))
            = cargo @ py_replace ''{cargo}'' cargo (py_replace ''{nome}'' nome (drop 6 cs))"
        by (subst e, subst replace_nome_over_cargo, subst replace_cargo_at) simp
      have s: "substitute nome cargo (c # cs) = cargo @ substitute nome cargo (drop 6 cs)"
        using True nn by (simp add: eval_nat_numeral del: starts_with_Cons)
      have p: "placeholders_only (drop 6 cs)"
        using True nn "2.prems"(1) by (simp add: eval_nat_numeral del: starts_with_Cons)
      show ?thesis
        unfolding r s using "2.IH"(2)[OF nn True p "2.prems"(2)] by simp
    next
      case False
      have c: "c \<noteq> CHR ''{''" and p: "placeholders_only cs"
        using False nn "2.prems"(1) by (simp_all add: eval_nat_numeral del: starts_with_Cons)
      have r: "py_replace ''{nome}'' nome (c # cs) = c # py_replace ''{nome}'' nome cs"
        using nn by (simp add: eval_nat_numeral del: starts_with_Cons)
      have r2: "py_replace ''{cargo}'' cargo (c # py_replace ''{nome}'' nome cs)
                = c # py_replace ''{cargo}'' cargo (py_replace ''{nome}'' nome cs)"
        using c by simp
      have s: "substitute nome cargo (c # cs) = c # substitute nome cargo cs"
        using False nn by (simp add: eval_nat_numeral del: starts_with_Cons)
      show ?thesis
        unfolding r r2 s using "2.IH"(3)[OF nn False p "2.prems"(2)] by simp
    qed
  qed
qed

text \<open>
  The first element of \<^verbatim>\<open>s.split()\<close> is the first maximal run of non-whitespace
  characters of \<open>s\<close>.
\<close>

lemma py_split_first_token:
  assumes "list_all is_space pre" "tok \<noteq> []" "list_all (\<lambda>c. \<not> is_space c) tok"
    "post = [] \<or> is_space (hd post)"
  shows "\<exists>ws. py_split (pre @ tok @ post) = tok # ws"
  using assms
proof (induction pre)
  case Nil
  from Nil(2,3,4) show ?case
  proof (induction tok)
    case Nil
    then show ?case by simp
  next
    case (Cons a tok)
    show ?case
    proof (cases tok)
      case Nil
      with Cons show ?thesis by (cases post) auto
    next
      case (Cons b tok')
      with Cons.IH Cons.prems show ?thesis by auto
    qed
  qed
next
  case (Cons a pre)
  then show ?case by simp
qed

lemma py_split_blank: "list_all is_space s \<Longrightarrow> py_split s = []"
  by (induction s) auto

section \<open>Message composition\<close>

text \<open>
  Claim C5, as amended. Let the name consist of whitespace, then a non-empty run \<open>tok\<close>
  of non-whitespace characters, then nothing or text that begins with whitespace, so that
  \<open>tok\<close> is the first whitespace-delimited token of the name. If \<open>tok\<close> has no opening
  brace and every opening brace of the template begins \<^verbatim>\<open>{nome}\<close> or \<^verbatim>\<open>{cargo}\<close>, then
  composition returns the template with every \<^verbatim>\<open>{nome}\<close> replaced by \<open>tok\<close> and every
  \<^verbatim>\<open>{cargo}\<close> replaced by the title, or by \<^verbatim>\<open>profissional\<close> when the title is empty.
\<close>

theorem build_message_substitutes:
  assumes "full_name = pre @ tok @ post"
    and "list_all is_space pre"
    and "tok \<noteq> []"
    and "list_all (\<lambda>c. \<not> is_space c) tok"
    and "post = [] \<or> is_space (hd post)"
    and "CHR ''{'' \<notin> set tok"
    and "placeholders_only template"
  shows "build_message template full_name role =
         Inr (substitute tok (if role = [] then ''profissional'' else role) template)"
proof -
  obtain ws where "py_split full_name = tok # ws"
    using py_split_first_token[OF assms(2-5)] assms(1) by auto
  then show ?thesis
    using sequential_is_simultaneous[OF assms(7,6)] by (simp add: build_message_def)
qed

text \<open>
  The two examples of the claim: the name ``Maria Clara Souza'' gives ``Maria'', an empty
  title gives the fallback, and the title ``Engenheira de Dados'' is written as it is.
\<close>

theorem build_message_substitutes_witness:
  "build_message ''Ola {nome}, ... {cargo} ...'' ''Maria Clara Souza'' [] =
     Inr ''Ola Maria, ... profissional ...'' \<and>
   build_message ''Ola {nome}, ... {cargo} ...'' ''Maria Clara Souza'' ''Engenheira de Dados'' =
     Inr ''Ola Maria, ... Engenheira de Dados ...''"
  using build_message_substitutes[of "''Maria Clara Souza''" "[]" "''Maria''" "'' Clara Souza''"
          "''Ola {nome}, ... {cargo} ...''" "[]"]
        build_message_substitutes[of "''Maria Clara Souza''" "[]" "''Maria''" "'' Clara Souza''"
          "''Ola {nome}, ... {cargo} ...''" "''Engenheira de Dados''"]
  by (simp add: is_space_def)

text \<open>
  Claim C5 as stated fails. A first token that is itself \<^verbatim>\<open>{cargo}\<close> is replaced again by
  the second replacement, so the message shows the title where the claim puts the token.
  A token written into a template with a stray brace can complete a \<^verbatim>\<open>{cargo}\<close> that the
  template did not have, which the second replacement then replaces. And a blank name
  has no token: composition raises.
\<close>

theorem build_message_counterexample:
  "build_message ''Ola {nome}'' ''{cargo} Silva'' ''Dev'' = Inr ''Ola Dev'' \<and>
   substitute ''{cargo}'' ''Dev'' ''Ola {nome}'' = ''Ola {cargo}'' \<and>
   build_message ''{c{nome}o}'' ''arg'' ''Dev'' = Inr ''Dev'' \<and>
   substitute ''arg'' ''Dev'' ''{c{nome}o}'' = ''{cargo}'' \<and>
   build_message ''Ola {nome}'' '' '' ''Dev'' = Inl IndexError"
  by (simp add: build_message_def is_space_def)

section \<open>Computations that only extend the trace\<close>

lemma trace_append_Nil [simp]: "s\<lparr>trace := trace s @ []\<rparr> = (s::state)"
  by simp

lemma emitsI:
  "(\<And>s. \<exists>evs. snd (f s) = s\<lparr>trace := trace s @ evs\<rparr> \<and> list_all E evs) \<Longrightarrow> emits E f"
  by (simp add: emits_def)

lemma emitsD:
  "emits E f \<Longrightarrow> \<exists>evs. snd (f s) = s\<lparr>trace := trace s @ evs\<rparr> \<and> list_all E evs"
  by (simp add: emits_def)

lemma emits_return: "emits E (io_return x)"
  by (rule emitsI, rule exI[of _ "[]"]) (simp add: io_return_def)

lemma emits_raise: "emits E (io_raise e)"
  by (rule emitsI, rule exI[of _ "[]"]) (simp add: io_raise_def)

lemma emits_lift: "emits E (io_lift r)"
  by (rule emitsI, rule exI[of _ "[]"]) (simp add: io_lift_def)

lemma emits_bind:
  assumes f: "emits E f" and g: "\<And>x. emits E (g x)"
  shows "emits E (io_bind f g)"
proof (rule emitsI)
  fix s
  obtain evs where 1: "snd (f s) = s\<lparr>trace := trace s @ evs\<rparr>" "list_all E evs"
    using emitsD[OF f] by blast
  show "\<exists>evs. snd (io_bind f g s) = s\<lparr>trace := trace s @ evs\<rparr> \<and> list_all E evs"
  proof (cases "f s")
    case (Pair r s1)
    with 1 have s1: "s1 = s\<lparr>trace := trace s @ evs\<rparr>" by simp
    show ?thesis
    proof (cases r)
      case (Inl e)
      with Pair s1 1 show ?thesis by (auto simp: io_bind_def)
    next
      case (Inr x)
      obtain evs2 where 2: "snd (g x s1) = s1\<lparr>trace := trace s1 @ evs2\<rparr>" "list_all E evs2"
        using emitsD[OF g] by blast
      have "snd (io_bind f g s) = s\<lparr>trace := trace s @ (evs @ evs2)\<rparr>"
        using Pair Inr 2 s1 by (simp add: io_bind_def)
      moreover have "list_all E (evs @ evs2)" using 1 2 by simp
      ultimately show ?thesis by blast
    qed
  qed
qed

lemma emits_event:
  "E c \<Longrightarrow> \<exists>evs. record_event c s = s\<lparr>trace := trace s @ evs\<rparr> \<and> list_all E evs"
  by (rule exI[of _ "[c]"]) (simp add: record_event_def)

lemma emits_call_unit: "E c \<Longrightarrow> emits E (call_unit drv c)"
  by (rule emitsI) (simp add: call_unit_def emits_event)

lemma emits_call_handle: "E c \<Longrightarrow> emits E (call_handle drv c)"
  by (rule emitsI) (simp add: call_handle_def emits_event)

lemma emits_call_handles: "E c \<Longrightarrow> emits E (call_handles drv c)"
  by (rule emitsI) (simp add: call_handles_def emits_event)

lemma emits_call_text: "E c \<Longrightarrow> emits E (call_text drv c)"
  by (rule emitsI) (simp add: call_text_def emits_event)

lemma emits_call_attr: "E c \<Longrightarrow> emits E (call_attr drv c)"
  by (rule emitsI) (simp add: call_attr_def emits_event)

lemma emits_delay:
  "(\<And>h. E (Sleep st (lo + (hi - lo) * sample drv h))) \<Longrightarrow>
   emits E (io_step (random_delay drv st lo hi))"
  by (rule emitsI) (simp add: io_step_def random_delay_def emits_event)

lemma emits_mono:
  assumes "emits E f" and "\<And>e. E e \<Longrightarrow> E' e"
  shows "emits E' f"
proof (rule emitsI)
  fix s
  obtain evs where "snd (f s) = s\<lparr>trace := trace s @ evs\<rparr>" "list_all E evs"
    using emitsD[OF assms(1)] by blast
  moreover from this assms(2) have "list_all E' evs"
    by (simp add: list_all_iff)
  ultimately show "\<exists>evs. snd (f s) = s\<lparr>trace := trace s @ evs\<rparr> \<and> list_all E' evs"
    by blast
qed

lemma emits_cond:
  "emits E f \<Longrightarrow> emits E g \<Longrightarrow> emits E (\<lambda>s. if b s then f s else g s)"
  by (simp add: emits_def)

lemma emits_option:
  "emits E f \<Longrightarrow> (\<And>y. emits E (g y)) \<Longrightarrow>
   emits E (case x of None \<Rightarrow> f | Some y \<Rightarrow> g y)"
  by (cases x) auto

lemma ok_sleep:
  "st \<in> S \<Longrightarrow> site_bounds cfg st = (lo, hi) \<Longrightarrow>
   event_ok cfg drv S (Sleep st (lo + (hi - lo) * sample drv h))"
  by (auto simp: paced_def)

lemma emits_pace:
  "st \<in> S \<Longrightarrow> site_bounds cfg st = (lo, hi) \<Longrightarrow>
   emits (event_ok cfg drv S) (io_step (random_delay drv st lo hi))"
  by (rule emits_delay) (rule ok_sleep)

lemma emits_query_first: "emits (event_ok cfg drv S) (query_first drv sels)"
proof (induction sels)
  case Nil
  show ?case by (rule emitsI, rule exI[of _ "[]"]) simp
next
  case (Cons sel sels)
  show ?case
  proof (rule emitsI)
    fix s
    obtain evs where 1: "snd (call_handle drv (QuerySelector sel) s) = s\<lparr>trace := trace s @ evs\<rparr>"
        "list_all (event_ok cfg drv S) evs"
      using emitsD[OF emits_call_handle[of "event_ok cfg drv S" "QuerySelector sel" drv]] by auto
    show "\<exists>evs. snd (query_first drv (sel # sels) s) = s\<lparr>trace := trace s @ evs\<rparr> \<and>
            list_all (event_ok cfg drv S) evs"
    proof (cases "call_handle drv (QuerySelector sel) s")
      case (Pair r s1)
      with 1 have s1: "s1 = s\<lparr>trace := trace s @ evs\<rparr>" by simp
      show ?thesis
      proof (cases r)
        case (Inl e)
        with Pair s1 1 show ?thesis by auto
      next
        case (Inr el)
        show ?thesis
        proof (cases el)
          case None
          obtain evs2 where 2: "snd (query_first drv sels s1) = s1\<lparr>trace := trace s1 @ evs2\<rparr>"
             "list_all (event_ok cfg drv S) evs2"
            using emitsD[OF Cons.IH] by blast
          have "snd (query_first drv (sel # sels) s) = s\<lparr>trace := trace s @ (evs @ evs2)\<rparr>"
            using Pair Inr None 2 s1 by simp
          moreover have "list_all (event_ok cfg drv S) (evs @ evs2)" using 1 2 by simp
          ultimately show ?thesis by blast
        next
          case (Some a)
          with Pair Inr s1 1 show ?thesis by auto
        qed
      qed
    qed
  qed
qed

lemma emits_query_or: "emits (event_ok cfg drv S) (query_or drv a b)"
  unfolding query_or_def
  by (intro emits_bind emits_option emits_call_handle emits_return) simp_all

lemma emits_read_entry:
  "emits (event_ok cfg drv S)
     (case (name_el, link_el) of
        (Some n, Some l) \<Rightarrow> f n l
      | _ \<Rightarrow> io_return None)"
  if "\<And>n l. emits (event_ok cfg drv S) (f n l)"
  using that by (cases name_el; cases link_el) (simp_all add: emits_return)

lemma emits_extract_profile: "emits (event_ok cfg drv S) (extract_profile drv h)"
  unfolding extract_profile_def
  apply (intro emits_bind emits_call_handle emits_read_entry emits_call_text emits_option
      emits_return emits_call_attr)
              apply (simp_all add: emits_return)
  done

lemma emits_submit_login: "emits (event_ok cfg drv S) (submit_login cfg drv)"
  unfolding submit_login_def by (intro emits_bind emits_call_unit) simp_all

lemma emits_open_page: "emits (event_ok cfg drv S) (open_page drv)"
  unfolding open_page_def by (intro emits_bind emits_call_unit) simp_all

lemma emits_login: "AfterLogin \<in> S \<Longrightarrow> emits (event_ok cfg drv S) (login cfg drv)"
  unfolding login_def
  by (intro emits_bind emits_submit_login emits_pace emits_cond emits_return emits_call_unit
      emits_raise) simp_all


section \<open>The body of the try for one profile\<close>

lemma settlesI:
  "(\<And>s. \<exists>evs. list_all (event_ok cfg drv body_sites) evs \<and>
               settled cfg p (s\<lparr>trace := trace s @ evs\<rparr>) (f s)) \<Longrightarrow>
   settles cfg drv p f"
  by (simp add: settles_def)

lemma settlesD:
  "settles cfg drv p f \<Longrightarrow>
   \<exists>evs. list_all (event_ok cfg drv body_sites) evs \<and>
         settled cfg p (s\<lparr>trace := trace s @ evs\<rparr>) (f s)"
  by (simp add: settles_def)

lemma settles_skip: "settles cfg drv p (\<lambda>s. (Inr Continue, add_skipped p reason s))"
  by (rule settlesI, rule exI[of _ "[]"]) auto

lemma settles_would_send:
  "dry_run cfg \<Longrightarrow> build_message (message_template cfg) (name p) (title p) = Inr m \<Longrightarrow>
   settles cfg drv p (\<lambda>s. (Inr Continue, add_would_send p m s))"
  by (rule settlesI, rule exI[of _ "[]"]) simp

lemma settles_sent: "\<not> dry_run cfg \<Longrightarrow> settles cfg drv p (\<lambda>s. (Inr FallThrough, add_sent p s))"
  by (rule settlesI, rule exI[of _ "[]"]) simp

lemma settles_raise: "settles cfg drv p (io_lift (Inl e))"
  by (rule settlesI, rule exI[of _ "[]"]) (simp add: io_lift_def)

lemma settles_bind:
  assumes f: "emits (event_ok cfg drv body_sites) f" and g: "\<And>x. settles cfg drv p (g x)"
  shows "settles cfg drv p (io_bind f g)"
proof (rule settlesI)
  fix s
  let ?E = "event_ok cfg drv body_sites"
  obtain evs where 1: "snd (f s) = s\<lparr>trace := trace s @ evs\<rparr>" "list_all ?E evs"
    using emitsD[OF f] by blast
  show "\<exists>evs. list_all ?E evs \<and> settled cfg p (s\<lparr>trace := trace s @ evs\<rparr>) (io_bind f g s)"
  proof (cases "f s")
    case (Pair r s1)
    with 1 have s1: "s1 = s\<lparr>trace := trace s @ evs\<rparr>" by simp
    show ?thesis
    proof (cases r)
      case (Inl e)
      have "io_bind f g s = (Inl e, s1)" using Pair Inl by (simp add: io_bind_def)
      then have "settled cfg p (s\<lparr>trace := trace s @ evs\<rparr>) (io_bind f g s)"
        using s1 by simp
      with 1 show ?thesis by blast
    next
      case (Inr x)
      obtain evs2 where 2: "list_all ?E evs2"
        and 3: "settled cfg p (s1\<lparr>trace := trace s1 @ evs2\<rparr>) (g x s1)"
        using settlesD[OF g[of x]] by blast
      have b: "io_bind f g s = g x s1" using Pair Inr by (simp add: io_bind_def)
      have t: "s1\<lparr>trace := trace s1 @ evs2\<rparr> = s\<lparr>trace := trace s @ (evs @ evs2)\<rparr>"
        using s1 by simp
      have "list_all ?E (evs @ evs2)" using 1 2 by simp
      moreover have "settled cfg p (s\<lparr>trace := trace s @ (evs @ evs2)\<rparr>) (io_bind f g s)"
        using 3 unfolding b t .
      ultimately show ?thesis by blast
    qed
  qed
qed

lemma settles_compose:
  assumes "\<And>m. build_message (message_template cfg) (name p) (title p) = Inr m \<Longrightarrow>
             settles cfg drv p (g m)"
  shows "settles cfg drv p
           (io_bind (io_lift (build_message (message_template cfg) (name p) (title p))) g)"
proof (cases "build_message (message_template cfg) (name p) (title p)")
  case (Inl e)
  have "io_bind (io_lift (Inl e)) g = io_lift (Inl e)"
    by (rule ext) (simp add: io_bind_def io_lift_def)
  with Inl show ?thesis by (simp add: settles_raise)
next
  case (Inr m)
  have "io_bind (io_lift (Inr m)) g = g m"
    by (rule ext) (simp add: io_bind_def io_lift_def)
  with Inr assms show ?thesis by simp
qed

lemma settles_option:
  "settles cfg drv p f \<Longrightarrow> (\<And>y. settles cfg drv p (g y)) \<Longrightarrow>
   settles cfg drv p (case x of None \<Rightarrow> f | Some y \<Rightarrow> g y)"
  by (cases x) auto

lemma emits_send_click:
  "\<not> dry_run cfg \<Longrightarrow>
   emits (event_ok cfg drv body_sites)
     (case send_btn of Some b \<Rightarrow> call_unit drv (Click b)
      | None \<Rightarrow> call_unit drv (Press box ''Control+Enter''))"
  by (cases send_btn) (simp_all add: emits_call_unit)

lemma settles_send_message:
  "\<not> dry_run cfg \<Longrightarrow> settles cfg drv p (send_message drv p b m)"
  unfolding send_message_def
  by (intro settles_bind settles_option settles_skip settles_sent emits_call_unit emits_pace
      emits_query_or emits_send_click) (simp_all add: body_sites_def)

lemma settles_compose_and_send:
  "settles cfg drv p
     (io_bind (io_lift (build_message (message_template cfg) (name p) (title p)))
        (\<lambda>message_preview.
           if dry_run cfg
           then (\<lambda>s. (Inr Continue, add_would_send p message_preview s))
           else send_message drv p b message_preview))"
  by (rule settles_compose) (simp add: settles_would_send settles_send_message)

lemma settles_profile_body: "settles cfg drv p (profile_body cfg drv p)"
  unfolding profile_body_def
  by (intro settles_compose_and_send settles_bind settles_option settles_skip emits_call_unit
      emits_pace emits_query_first) (simp_all add: body_sites_def)

section \<open>One iteration of the loop over the profiles\<close>

lemma entered_Nil [simp]: "entered [] = 0"
  by (simp add: entered_def)

lemma entered_append [simp]: "entered (xs @ ys) = entered xs + entered ys"
  by (simp add: entered_def)

lemma entered_Cons [simp]: "entered (e # es) = (if is_entry e then 1 else 0) + entered es"
  by (simp add: entered_def)

lemma event_ok_mono: "event_ok cfg drv S e \<Longrightarrow> S \<subseteq> S' \<Longrightarrow> event_ok cfg drv S' e"
  by (cases e) auto

lemma list_all_event_ok_mono:
  "list_all (event_ok cfg drv S) evs \<Longrightarrow> S \<subseteq> S' \<Longrightarrow> list_all (event_ok cfg drv S') evs"
  by (induction evs) (auto intro: event_ok_mono)

lemma no_entry:
  "list_all (event_ok cfg drv S) evs \<Longrightarrow> BeforeProfile \<notin> S \<Longrightarrow> entered evs = 0"
proof (induction evs)
  case Nil
  then show ?case by simp
next
  case (Cons e evs)
  then show ?case by (cases e) auto
qed

lemma pace_before_eq:
  "pace_before cfg drv s =
   s\<lparr>trace := trace s @ [Sleep BeforeProfile
        (real_of_int (delay_min cfg) +
         (real_of_int (delay_max cfg) - real_of_int (delay_min cfg)) * sample drv (trace s))]\<rparr>"
  by (simp add: pace_before_def random_delay_def record_event_def)

lemma pace_after_eq:
  "pace_after cfg drv s =
   s\<lparr>trace := trace s @ [Sleep AfterProfile
        (real_of_int (delay_min cfg + 2) +
         (real_of_int (delay_max cfg + 3) - real_of_int (delay_min cfg + 2)) *
         sample drv (trace s))]\<rparr>"
  by (simp add: pace_after_def random_delay_def record_event_def)

lemma ok_before:
  "event_ok cfg drv UNIV (Sleep BeforeProfile
     (real_of_int (delay_min cfg) +
      (real_of_int (delay_max cfg) - real_of_int (delay_min cfg)) * sample drv h))"
  by (rule ok_sleep) simp_all

lemma ok_after:
  "event_ok cfg drv UNIV (Sleep AfterProfile
     (real_of_int (delay_min cfg + 2) +
      (real_of_int (delay_max cfg + 3) - real_of_int (delay_min cfg + 2)) * sample drv h))"
  by (rule ok_sleep) simp_all

lemma process_profile_resolved:
  "\<exists>evs. list_all (event_ok cfg drv UNIV) evs \<and> entered evs = 1 \<and>
     resolved cfg p (s\<lparr>trace := trace s @ evs\<rparr>) (process_profile cfg drv p s)"
proof -
  define b where "b = Sleep BeforeProfile
        (real_of_int (delay_min cfg) +
         (real_of_int (delay_max cfg) - real_of_int (delay_min cfg)) * sample drv (trace s))"
  define s0 where "s0 = pace_before cfg drv s"
  have s0: "s0 = s\<lparr>trace := trace s @ [b]\<rparr>"
    unfolding s0_def b_def by (rule pace_before_eq)
  have okb: "event_ok cfg drv UNIV b" unfolding b_def by (rule ok_before)
  have eb: "entered [b] = 1" by (simp add: b_def)
  obtain evs1 where 1: "list_all (event_ok cfg drv body_sites) evs1"
    and 2: "settled cfg p (s0\<lparr>trace := trace s0 @ evs1\<rparr>) (profile_body cfg drv p s0)"
    using settlesD[OF settles_profile_body] by blast
  have ok1: "list_all (event_ok cfg drv UNIV) evs1"
    using 1 by (rule list_all_event_ok_mono) simp
  have e1: "entered evs1 = 0"
    using 1 by (rule no_entry) (simp add: body_sites_def)
  define t1 where "t1 = s\<lparr>trace := trace s @ ([b] @ evs1)\<rparr>"
  have t1: "s0\<lparr>trace := trace s0 @ evs1\<rparr> = t1" by (simp add: s0 t1_def)
  define a where "a = Sleep AfterProfile
        (real_of_int (delay_min cfg + 2) +
         (real_of_int (delay_max cfg + 3) - real_of_int (delay_min cfg + 2)) *
         sample drv (trace t1))"
  have oka: "event_ok cfg drv UNIV a" unfolding a_def by (rule ok_after)
  define t2 where "t2 = s\<lparr>trace := trace s @ ([b] @ evs1 @ [a])\<rparr>"
  have ok_short: "list_all (event_ok cfg drv UNIV) ([b] @ evs1)" using okb ok1 by simp
  have ok_long: "list_all (event_ok cfg drv UNIV) ([b] @ evs1 @ [a])" using okb ok1 oka by simp
  have e_short: "entered ([b] @ evs1) = 1" using eb e1 by (simp add: b_def)
  have e_long: "entered ([b] @ evs1 @ [a]) = 1" using eb e1 by (simp add: b_def a_def)
  show ?thesis
  proof (cases "profile_body cfg drv p s0")
    case (Pair r s')
    show ?thesis
    proof (cases r)
      case (Inl e)
      with 2 Pair t1 have s': "s' = t1" by simp
      have "process_profile cfg drv p s = pace_after cfg drv (add_error p e t1)"
        using Pair Inl s' by (simp add: process_profile_def s0_def)
      also have "\<dots> = add_error p e t2"
        by (simp add: pace_after_eq add_error_def a_def t1_def t2_def)
      finally have "resolved cfg p t2 (process_profile cfg drv p s)"
        by (auto simp: resolved_def)
      with ok_long e_long show ?thesis unfolding t2_def by blast
    next
      case (Inr fl)
      show ?thesis
      proof (cases fl)
        case Continue
        have pp: "process_profile cfg drv p s = s'"
          using Pair Inr Continue by (simp add: process_profile_def s0_def)
        have "settled cfg p t1 (Inr Continue, s')" using 2 Pair Inr Continue t1 by simp
        then have "resolved cfg p t1 (process_profile cfg drv p s)"
          unfolding pp by (auto simp: resolved_def)
        with ok_short e_short show ?thesis unfolding t1_def by blast
      next
        case FallThrough
        have "settled cfg p t1 (Inr FallThrough, s')" using 2 Pair Inr FallThrough t1 by simp
        then have nd: "\<not> dry_run cfg" and s': "s' = add_sent p t1" by simp_all
        have "process_profile cfg drv p s = pace_after cfg drv (add_sent p t1)"
          using Pair Inr FallThrough s' by (simp add: process_profile_def s0_def)
        also have "\<dots> = add_sent p t2"
          by (simp add: pace_after_eq add_sent_def a_def t1_def t2_def)
        finally have "resolved cfg p t2 (process_profile cfg drv p s)"
          using nd by (auto simp: resolved_def)
        with ok_long e_long show ?thesis unfolding t2_def by blast
      qed
    qed
  qed
qed

section \<open>Progress of the run\<close>

lemma progress_refl: "progress cfg drv s s"
  unfolding progress_def by (auto intro: exI[of _ "[]"])

lemma progress_trans:
  assumes "progress cfg drv s s1" and "progress cfg drv s1 s2"
  shows "progress cfg drv s s2"
proof -
  obtain e1 where 1: "trace s1 = trace s @ e1" "list_all (event_ok cfg drv UNIV) e1"
      "outcomes s1 = outcomes s + entered e1"
    using assms(1) unfolding progress_def by blast
  obtain e2 where 2: "trace s2 = trace s1 @ e2" "list_all (event_ok cfg drv UNIV) e2"
      "outcomes s2 = outcomes s1 + entered e2"
    using assms(2) unfolding progress_def by blast
  have "trace s2 = trace s @ (e1 @ e2) \<and> list_all (event_ok cfg drv UNIV) (e1 @ e2) \<and>
        outcomes s2 = outcomes s + entered (e1 @ e2)"
    using 1 2 by simp
  then have "\<exists>evs. trace s2 = trace s @ evs \<and> list_all (event_ok cfg drv UNIV) evs \<and>
        outcomes s2 = outcomes s + entered evs"
    by blast
  moreover have "dry_run cfg \<longrightarrow> sent s2 = sent s"
    using assms unfolding progress_def by simp
  moreover have "\<not> dry_run cfg \<longrightarrow> would_send s2 = would_send s"
    using assms unfolding progress_def by simp
  moreover have "totalSent s \<le> totalSent s2"
    using assms unfolding progress_def by linarith
  moreover have "totalSent s \<le> max_messages cfg \<longrightarrow> totalSent s2 \<le> max_messages cfg"
    using assms unfolding progress_def by blast
  ultimately show ?thesis unfolding progress_def by blast
qed

lemma progress_trace:
  assumes "list_all (event_ok cfg drv S) evs" and "BeforeProfile \<notin> S"
  shows "progress cfg drv s (s\<lparr>trace := trace s @ evs\<rparr>)"
proof -
  have "list_all (event_ok cfg drv UNIV) evs"
    using assms(1) by (rule list_all_event_ok_mono) simp
  moreover have "entered evs = 0" using assms by (rule no_entry)
  ultimately have "trace (s\<lparr>trace := trace s @ evs\<rparr>) = trace s @ evs \<and>
      list_all (event_ok cfg drv UNIV) evs \<and>
      outcomes (s\<lparr>trace := trace s @ evs\<rparr>) = outcomes s + entered evs"
    by (simp add: outcomes_def)
  then show ?thesis unfolding progress_def by auto
qed

lemma advancesI: "(\<And>s. progress cfg drv s (snd (f s))) \<Longrightarrow> advances cfg drv f"
  by (simp add: advances_def)

lemma advancesD: "advances cfg drv f \<Longrightarrow> progress cfg drv s (snd (f s))"
  by (simp add: advances_def)

lemma advances_emits:
  assumes "emits (event_ok cfg drv S) f" and "BeforeProfile \<notin> S"
  shows "advances cfg drv f"
proof (rule advancesI)
  fix s
  obtain evs where "snd (f s) = s\<lparr>trace := trace s @ evs\<rparr>" "list_all (event_ok cfg drv S) evs"
    using emitsD[OF assms(1)] by blast
  then show "progress cfg drv s (snd (f s))"
    using progress_trace[OF _ assms(2)] by simp
qed

lemma advances_bind:
  assumes f: "advances cfg drv f" and g: "\<And>x. advances cfg drv (g x)"
  shows "advances cfg drv (io_bind f g)"
proof (rule advancesI)
  fix s
  show "progress cfg drv s (snd (io_bind f g s))"
  proof (cases "f s")
    case (Pair r s1)
    have p1: "progress cfg drv s s1" using advancesD[OF f, of s] Pair by simp
    show ?thesis
    proof (cases r)
      case (Inl e)
      with Pair p1 show ?thesis by (simp add: io_bind_def)
    next
      case (Inr x)
      have "progress cfg drv s1 (snd (g x s1))" by (rule advancesD[OF g])
      with p1 have "progress cfg drv s (snd (g x s1))" by (rule progress_trans)
      with Pair Inr show ?thesis by (simp add: io_bind_def)
    qed
  qed
qed

lemma resolved_progress:
  assumes r: "resolved cfg p (s\<lparr>trace := trace s @ evs\<rparr>) s'"
    and ok: "list_all (event_ok cfg drv UNIV) evs" and en: "entered evs = 1"
    and lt: "totalSent s < max_messages cfg"
  shows "progress cfg drv s s'"
proof -
  let ?t = "s\<lparr>trace := trace s @ evs\<rparr>"
  from r consider
    (err) e where "s' = add_error p e ?t"
    | (skip) reason where "s' = add_skipped p reason ?t"
    | (dry) m where "dry_run cfg" "s' = add_would_send p m ?t"
    | (real) "\<not> dry_run cfg" "s' = add_sent p ?t"
    unfolding resolved_def by blast
  then show ?thesis
  proof cases
    case err
    then have "trace s' = trace s @ evs \<and> list_all (event_ok cfg drv UNIV) evs \<and>
        outcomes s' = outcomes s + entered evs"
      using ok en by (simp add: add_error_def outcomes_def)
    then have "\<exists>evs. trace s' = trace s @ evs \<and> list_all (event_ok cfg drv UNIV) evs \<and>
        outcomes s' = outcomes s + entered evs" by blast
    then show ?thesis unfolding progress_def using err by (simp add: add_error_def)
  next
    case skip
    then have "trace s' = trace s @ evs \<and> list_all (event_ok cfg drv UNIV) evs \<and>
        outcomes s' = outcomes s + entered evs"
      using ok en by (simp add: add_skipped_def outcomes_def)
    then have "\<exists>evs. trace s' = trace s @ evs \<and> list_all (event_ok cfg drv UNIV) evs \<and>
        outcomes s' = outcomes s + entered evs" by blast
    then show ?thesis unfolding progress_def using skip by (simp add: add_skipped_def)
  next
    case dry
    then have "trace s' = trace s @ evs \<and> list_all (event_ok cfg drv UNIV) evs \<and>
        outcomes s' = outcomes s + entered evs"
      using ok en by (simp add: add_would_send_def outcomes_def)
    then have "\<exists>evs. trace s' = trace s @ evs \<and> list_all (event_ok cfg drv UNIV) evs \<and>
        outcomes s' = outcomes s + entered evs" by blast
    then show ?thesis unfolding progress_def using dry lt by (simp add: add_would_send_def)
  next
    case real
    then have "trace s' = trace s @ evs \<and> list_all (event_ok cfg drv UNIV) evs \<and>
        outcomes s' = outcomes s + entered evs"
      using ok en by (simp add: add_sent_def outcomes_def)
    then have "\<exists>evs. trace s' = trace s @ evs \<and> list_all (event_ok cfg drv UNIV) evs \<and>
        outcomes s' = outcomes s + entered evs" by blast
    then show ?thesis unfolding progress_def using real lt by (simp add: add_sent_def)
  qed
qed

lemma progress_process_profile:
  "totalSent s < max_messages cfg \<Longrightarrow> progress cfg drv s (process_profile cfg drv p s)"
  using process_profile_resolved[of cfg drv p s] resolved_progress by blast

lemma progress_profile_loop: "progress cfg drv s (profile_loop cfg drv ps s)"
proof (induction ps arbitrary: s)
  case Nil
  show ?case by (simp add: progress_refl)
next
  case (Cons p ps)
  show ?case
  proof (cases "totalSent s \<ge> max_messages cfg")
    case True
    then show ?thesis by (simp add: progress_refl)
  next
    case False
    then have "progress cfg drv s (process_profile cfg drv p s)"
      by (simp add: progress_process_profile)
    then have "progress cfg drv s (profile_loop cfg drv ps (process_profile cfg drv p s))"
      using Cons.IH by (rule progress_trans)
    with False show ?thesis by simp
  qed
qed

lemma extract_entry_trace:
  "\<exists>evs. snd (extract_entry drv h s) = s\<lparr>trace := trace s @ evs\<rparr> \<and>
         list_all (event_ok cfg drv {}) evs"
proof -
  obtain evs where 1: "snd (extract_profile drv h s) = s\<lparr>trace := trace s @ evs\<rparr>"
    "list_all (event_ok cfg drv {}) evs"
    using emitsD[OF emits_extract_profile] by blast
  have "snd (extract_entry drv h s) = snd (extract_profile drv h s)"
    by (simp add: extract_entry_def split: prod.split sum.split)
  with 1 show ?thesis by auto
qed

lemma extract_profiles_trace:
  "\<exists>evs. snd (extract_profiles drv hs s) = s\<lparr>trace := trace s @ evs\<rparr> \<and>
         list_all (event_ok cfg drv {}) evs"
proof (induction hs arbitrary: s)
  case Nil
  show ?case by (rule exI[of _ "[]"]) simp
next
  case (Cons h hs)
  obtain e1 where 1: "snd (extract_entry drv h s) = s\<lparr>trace := trace s @ e1\<rparr>"
    "list_all (event_ok cfg drv {}) e1"
    using extract_entry_trace by blast
  define s1 where "s1 = snd (extract_entry drv h s)"
  obtain e2 where 2: "snd (extract_profiles drv hs s1) = s1\<lparr>trace := trace s1 @ e2\<rparr>"
    "list_all (event_ok cfg drv {}) e2"
    using Cons.IH by blast
  have "snd (extract_profiles drv (h # hs) s) = snd (extract_profiles drv hs s1)"
    by (simp add: s1_def split: prod.split)
  also have "\<dots> = s\<lparr>trace := trace s @ (e1 @ e2)\<rparr>"
    using 1 2 by (simp add: s1_def)
  finally show ?case using 1 2 by (intro exI[of _ "e1 @ e2"]) simp
qed

lemma emits_open_listing:
  "AfterSearch \<in> S \<Longrightarrow> emits (event_ok cfg drv S) (open_listing drv keyword)"
  unfolding open_listing_def
  by (intro emits_bind emits_call_unit emits_pace emits_call_handles) simp_all

lemma advances_search_keyword: "advances cfg drv (search_keyword cfg drv keyword)"
  unfolding search_keyword_def
proof (intro advances_bind)
  show "advances cfg drv (open_listing drv keyword)"
    by (rule advances_emits[where S="{AfterSearch}"]) (simp_all add: emits_open_listing)
  fix handles
  show "advances cfg drv (\<lambda>s. case extract_profiles drv handles s of
            (profiles, s') \<Rightarrow> (Inr (), profile_loop cfg drv profiles s'))"
  proof (rule advancesI)
    fix s
    obtain evs where 1: "snd (extract_profiles drv handles s) = s\<lparr>trace := trace s @ evs\<rparr>"
      "list_all (event_ok cfg drv {}) evs"
      using extract_profiles_trace by blast
    have "progress cfg drv s (snd (extract_profiles drv handles s))"
      using progress_trace[OF 1(2)] 1(1) by simp
    then have "progress cfg drv s (profile_loop cfg drv (fst (extract_profiles drv handles s))
        (snd (extract_profiles drv handles s)))"
      using progress_profile_loop by (rule progress_trans)
    then show "progress cfg drv s (snd (case extract_profiles drv handles s of
            (profiles, s') \<Rightarrow> (Inr (), profile_loop cfg drv profiles s')))"
      by (simp add: split_def)
  qed
qed

lemma advances_keyword_loop: "advances cfg drv (keyword_loop cfg drv ks)"
proof (induction ks)
  case Nil
  show ?case by (rule advancesI) (simp add: progress_refl)
next
  case (Cons k ks)
  show ?case
  proof (rule advancesI)
    fix s
    show "progress cfg drv s (snd (keyword_loop cfg drv (k # ks) s))"
    proof (cases "totalSent s \<ge> max_messages cfg")
      case True
      then show ?thesis by (simp add: progress_refl)
    next
      case False
      have p1: "progress cfg drv s (snd (search_keyword cfg drv k s))"
        by (rule advancesD[OF advances_search_keyword])
      show ?thesis
      proof (cases "search_keyword cfg drv k s")
        case (Pair r s1)
        show ?thesis
        proof (cases r)
          case (Inl e)
          with Pair False p1 show ?thesis by simp
        next
          case (Inr u)
          have "progress cfg drv s1 (snd (keyword_loop cfg drv ks s1))"
            by (rule advancesD[OF Cons.IH])
          with p1 Pair have "progress cfg drv s (snd (keyword_loop cfg drv ks s1))"
            using progress_trans by fastforce
          with Pair Inr False show ?thesis by simp
        qed
      qed
    qed
  qed
qed

lemma advances_session: "advances cfg drv (session cfg drv)"
  unfolding session_def
proof (intro advances_bind)
  show "advances cfg drv (open_page drv)"
    by (rule advances_emits[where S="{}"]) (simp_all add: emits_open_page)
  show "advances cfg drv (login cfg drv)"
    by (rule advances_emits[where S="{AfterLogin}"]) (simp_all add: emits_login)
  show "advances cfg drv (keyword_loop cfg drv (keywords_of cfg))"
    by (rule advances_keyword_loop)
  show "advances cfg drv (call_unit drv Close)"
    by (rule advances_emits[where S="{}"]) (simp_all add: emits_call_unit)
qed

lemma progress_run: "progress cfg drv initial (snd (run_automation cfg drv))"
proof -
  have a: "advances cfg drv (call_unit drv Start)"
    by (rule advances_emits[where S="{}"]) (simp_all add: emits_call_unit)
  have z: "advances cfg drv (call_unit drv Stop)"
    by (rule advances_emits[where S="{}"]) (simp_all add: emits_call_unit)
  define s0 where "s0 = snd (call_unit drv Start initial)"
  define s1 where "s1 = snd (session cfg drv s0)"
  define s2 where "s2 = snd (call_unit drv Stop s1)"
  have p0: "progress cfg drv initial s0" unfolding s0_def by (rule advancesD[OF a])
  have p1: "progress cfg drv s0 s1" unfolding s1_def by (rule advancesD[OF advances_session])
  have p2: "progress cfg drv s1 s2" unfolding s2_def by (rule advancesD[OF z])
  have p02: "progress cfg drv initial s2"
    using p0 p1 p2 progress_trans by blast
  have "snd (run_automation cfg drv) = s0 \<or> snd (run_automation cfg drv) = s2"
    unfolding run_automation_def s0_def s1_def s2_def
    by (simp split: prod.split sum.split)
  with p0 p02 show ?thesis by auto
qed

section \<open>Evaluation of the concrete runs\<close>

lemmas model_defs =
  run_automation_def session_def open_page_def login_def submit_login_def logged_in_def
  search_keyword_def open_listing_def extract_entry_def extract_profile_def process_profile_def
  profile_body_def send_message_def query_or_def pace_before_def pace_after_def
  random_delay_def record_event_def call_unit_def call_handle_def call_handles_def
  call_text_def call_attr_def io_bind_def io_return_def io_raise_def io_step_def io_lift_def
  add_skipped_def add_would_send_def add_sent_def add_error_def initial_def response_def
  build_message_def py_strip_def first_field_def is_space_def
  btn_selectors_def search_url_def

lemmas demo_defs =
  cfg_demo_def drv_connected_def drv_stranger_def drv_checkpoint_def drv_offline_def
  url_maria_def url_blank_def maria_def anon_def stranger_response_def connected_response_def
  demo_login_trace_def demo_search_trace_def
  sel_subtitle_def sel_title_link_def sel_msg_form_def sel_send_button_def
  sel_textbox_def sel_submit_enviar_def sel_results_def sel_submit_def login_url_def

lemma stranger_dry_run:
  "run_automation cfg_demo drv_stranger =
     (Inr stranger_response,
      \<lparr>sent = [], would_send = [],
       skipped = [(maria, ''Botao mensagem nao encontrado (nao e conexao)'')],
       errors = [(anon, ''list index out of range'')],
       totalSent = 0,
       trace = demo_login_trace @ demo_search_trace @
         [Sleep BeforeProfile 5, Goto url_maria, WaitForLoadState ''networkidle'',
          Sleep AfterNavigate (5 / 2), QuerySelector (btn_selectors ! 0),
          QuerySelector (btn_selectors ! 1), QuerySelector (btn_selectors ! 2),
          Sleep BeforeProfile 5, Goto url_blank, WaitForLoadState ''networkidle'',
          Sleep AfterNavigate (5 / 2), QuerySelector (btn_selectors ! 0),
          Sleep AfterProfile (15 / 2), Close, Stop]\<rparr>)"
  by (simp add: model_defs demo_defs)

lemma connected_dry_run:
  "run_automation cfg_demo drv_connected =
     (Inr connected_response,
      \<lparr>sent = [],
       would_send = [(maria, ''Ola Maria, vi seu trabalho como Engenheira de Dados.'')],
       skipped = [],
       errors = [(anon, ''list index out of range'')],
       totalSent = 1,
       trace = demo_login_trace @ demo_search_trace @
         [Sleep BeforeProfile 5, Goto url_maria, WaitForLoadState ''networkidle'',
          Sleep AfterNavigate (5 / 2), QuerySelector (btn_selectors ! 0),
          Sleep BeforeProfile 5, Goto url_blank, WaitForLoadState ''networkidle'',
          Sleep AfterNavigate (5 / 2), QuerySelector (btn_selectors ! 0),
          Sleep AfterProfile (15 / 2), Close, Stop]\<rparr>)"
  by (simp add: model_defs demo_defs)

section \<open>The quota\<close>






section \<open>One outcome for each profile\<close>

lemma outcome_profiles_trace [simp]:
  "outcome_profiles (s\<lparr>trace := t\<rparr>) = outcome_profiles s"
  by (simp add: outcome_profiles_def)

lemma resolved_outcome_profiles:
  "resolved cfg p (s\<lparr>trace := t\<rparr>) s' \<Longrightarrow> outcome_profiles s' = outcome_profiles s + {#p#}"
  unfolding resolved_def
  by (auto simp: outcome_profiles_def add_error_def add_skipped_def add_would_send_def
      add_sent_def)

lemma profile_loop_partition:
  "\<exists>k. k \<le> length ps \<and>
       outcome_profiles (profile_loop cfg drv ps s) = outcome_profiles s + mset (take k ps)"
proof (induction ps arbitrary: s)
  case Nil
  show ?case by simp
next
  case (Cons p ps)
  show ?case
  proof (cases "totalSent s \<ge> max_messages cfg")
    case True
    then show ?thesis by (intro exI[of _ 0]) simp
  next
    case False
    define s1 where "s1 = process_profile cfg drv p s"
    have 1: "outcome_profiles s1 = outcome_profiles s + {#p#}"
      using process_profile_resolved[of cfg drv p s] resolved_outcome_profiles
      unfolding s1_def by blast
    obtain k where k: "k \<le> length ps"
      "outcome_profiles (profile_loop cfg drv ps s1) = outcome_profiles s1 + mset (take k ps)"
      using Cons.IH by blast
    have "outcome_profiles (profile_loop cfg drv (p # ps) s) =
          outcome_profiles s + mset (take (Suc k) (p # ps))"
      using False k 1 by (simp add: s1_def)
    with k(1) show ?thesis by (intro exI[of _ "Suc k"]) simp
  qed
qed

text \<open>
  Claim C2. One iteration for a profile \<open>p\<close> appends \<open>p\<close> to one of the four lists and
  leaves the other three as they are. So the profiles in the four lists after the loop
  are those before it together with a prefix of the list of candidates, the profiles
  that the loop processed; and at the end of a run the four lists hold as many entries
  as profiles have entered the state machine.
\<close>

theorem one_outcome_per_profile:
  "((\<exists>m. would_send (process_profile cfg drv p s) = would_send s @ [(p, m)] \<and>
         sent (process_profile cfg drv p s) = sent s \<and>
         skipped (process_profile cfg drv p s) = skipped s \<and>
         errors (process_profile cfg drv p s) = errors s) \<or>
    (sent (process_profile cfg drv p s) = sent s @ [p] \<and>
     would_send (process_profile cfg drv p s) = would_send s \<and>
     skipped (process_profile cfg drv p s) = skipped s \<and>
     errors (process_profile cfg drv p s) = errors s) \<or>
    (\<exists>reason. skipped (process_profile cfg drv p s) = skipped s @ [(p, reason)] \<and>
         would_send (process_profile cfg drv p s) = would_send s \<and>
         sent (process_profile cfg drv p s) = sent s \<and>
         errors (process_profile cfg drv p s) = errors s) \<or>
    (\<exists>detail. errors (process_profile cfg drv p s) = errors s @ [(p, detail)] \<and>
         would_send (process_profile cfg drv p s) = would_send s \<and>
         sent (process_profile cfg drv p s) = sent s \<and>
         skipped (process_profile cfg drv p s) = skipped s)) \<and>
   (\<exists>k. k \<le> length ps \<and>
        outcome_profiles (profile_loop cfg drv ps s) = outcome_profiles s + mset (take k ps)) \<and>
   outcomes (snd (run_automation cfg drv)) = entered (trace (snd (run_automation cfg drv)))"
proof -
  obtain evs where r: "resolved cfg p (s\<lparr>trace := trace s @ evs\<rparr>) (process_profile cfg drv p s)"
    using process_profile_resolved[of cfg drv p s] by blast
  let ?t = "s\<lparr>trace := trace s @ evs\<rparr>"
  from r consider
    (err) e where "process_profile cfg drv p s = add_error p e ?t"
    | (skip) reason where "process_profile cfg drv p s = add_skipped p reason ?t"
    | (dry) m where "process_profile cfg drv p s = add_would_send p m ?t"
    | (real) "process_profile cfg drv p s = add_sent p ?t"
    unfolding resolved_def by blast
  then have one: "(\<exists>m. would_send (process_profile cfg drv p s) = would_send s @ [(p, m)] \<and>
         sent (process_profile cfg drv p s) = sent s \<and>
         skipped (process_profile cfg drv p s) = skipped s \<and>
         errors (process_profile cfg drv p s) = errors s) \<or>
    (sent (process_profile cfg drv p s) = sent s @ [p] \<and>
     would_send (process_profile cfg drv p s) = would_send s \<and>
     skipped (process_profile cfg drv p s) = skipped s \<and>
     errors (process_profile cfg drv p s) = errors s) \<or>
    (\<exists>reason. skipped (process_profile cfg drv p s) = skipped s @ [(p, reason)] \<and>
         would_send (process_profile cfg drv p s) = would_send s \<and>
         sent (process_profile cfg drv p s) = sent s \<and>
         errors (process_profile cfg drv p s) = errors s) \<or>
    (\<exists>detail. errors (process_profile cfg drv p s) = errors s @ [(p, detail)] \<and>
         would_send (process_profile cfg drv p s) = would_send s \<and>
         sent (process_profile cfg drv p s) = sent s \<and>
         skipped (process_profile cfg drv p s) = skipped s)"
  proof cases
    case err
    then show ?thesis by (simp add: add_error_def)
  next
    case skip
    then show ?thesis by (simp add: add_skipped_def)
  next
    case dry
    then show ?thesis by (simp add: add_would_send_def)
  next
    case real
    then show ?thesis by (simp add: add_sent_def)
  qed
  have "outcomes (snd (run_automation cfg drv)) = entered (trace (snd (run_automation cfg drv)))"
    using progress_run[of cfg drv] by (auto simp: progress_def initial_def outcomes_def)
  with one profile_loop_partition show ?thesis by blast
qed

theorem one_outcome_per_profile_witness:
  "outcomes (snd (run_automation cfg_demo drv_connected)) = 2 \<and>
   entered (trace (snd (run_automation cfg_demo drv_connected))) = 2 \<and>
   would_send (snd (run_automation cfg_demo drv_connected)) =
     [(maria, ''Ola Maria, vi seu trabalho como Engenheira de Dados.'')] \<and>
   errors (snd (run_automation cfg_demo drv_connected)) = [(anon, ''list index out of range'')]"
  using one_outcome_per_profile[of cfg_demo drv_connected maria initial "[]"] connected_dry_run
  by (simp add: outcomes_def demo_login_trace_def demo_search_trace_def)

section \<open>Success of a completed run\<close>


text \<open>
  Claim C10. A run that returns a response returns one whose \<open>success\<close> field is true,
  whatever the outcomes of its profiles.
\<close>

theorem completed_run_succeeds:
  "fst (run_automation cfg drv) = Inr r \<Longrightarrow> success r"
  unfolding run_automation_def
  by (auto simp: response_def split: prod.splits sum.splits)

text \<open>
  A run in which one profile is skipped, the other ends in an error, and nothing is sent.
\<close>

theorem completed_run_succeeds_witness:
  "fst (run_automation cfg_demo drv_stranger) = Inr stranger_response \<and>
   success stranger_response \<and>
   sum_totalSent (resp_summary stranger_response) = 0 \<and>
   resp_sent stranger_response = [] \<and>
   resp_would_send stranger_response = [] \<and>
   length (resp_skipped stranger_response) = 1 \<and>
   length (resp_errors stranger_response) = 1"
  using completed_run_succeeds[of cfg_demo drv_stranger stranger_response] stranger_dry_run
  by (simp add: stranger_response_def)

section \<open>The delay after a profile\<close>

text \<open>
  When the body of the \<^verbatim>\<open>try\<close> ends at a \<^verbatim>\<open>continue\<close>, the iteration ends with it:
  the delay after the \<^verbatim>\<open>try\<close> is not run.
\<close>

lemma continue_skips_trailing_delay:
  "profile_body cfg drv p (pace_before cfg drv s) = (Inr Continue, s') \<Longrightarrow>
   process_profile cfg drv p s = s'"
  by (simp add: process_profile_def)

text \<open>
  Claim C9 fails on the code. In the first run Maria is skipped for want of a message
  button, in the second she is recorded in \<open>would_send\<close>; in both, the sleeps of the run
  show no delay after her profile: the delay before the next profile follows at once.
  Only the profile that ends in an error is followed by the longer delay.
\<close>

theorem no_trailing_delay_after_continue:
  "skipped (snd (run_automation cfg_demo drv_stranger)) =
     [(maria, ''Botao mensagem nao encontrado (nao e conexao)'')] \<and>
   filter is_sleep (trace (snd (run_automation cfg_demo drv_stranger))) =
     [Sleep AfterLogin 3, Sleep AfterSearch (5 / 2),
      Sleep BeforeProfile 5, Sleep AfterNavigate (5 / 2),
      Sleep BeforeProfile 5, Sleep AfterNavigate (5 / 2), Sleep AfterProfile (15 / 2)] \<and>
   would_send (snd (run_automation cfg_demo drv_connected)) =
     [(maria, ''Ola Maria, vi seu trabalho como Engenheira de Dados.'')] \<and>
   filter is_sleep (trace (snd (run_automation cfg_demo drv_connected))) =
     [Sleep AfterLogin 3, Sleep AfterSearch (5 / 2),
      Sleep BeforeProfile 5, Sleep AfterNavigate (5 / 2),
      Sleep BeforeProfile 5, Sleep AfterNavigate (5 / 2), Sleep AfterProfile (15 / 2)]"
  by (simp add: stranger_dry_run connected_dry_run demo_login_trace_def demo_search_trace_def)

section \<open>Dry runs and real runs\<close>




lemma connected_has_button:
  "fst (query_first drv_connected btn_selectors s) = Inr (Some 9)"
  by (simp add: btn_selectors_def call_handle_def drv_connected_def sel_msg_form_def
      sel_send_button_def)

section \<open>Pacing\<close>






section \<open>Faults while a profile is processed\<close>




section \<open>A failed login\<close>

lemma open_page_returns:
  "open_page drv s0 = (Inr (), s1) \<Longrightarrow>
   s1 = s0\<lparr>trace := trace s0 @ [Launch, NewContext, NewPage]\<rparr>"
  by (auto simp: open_page_def io_bind_def call_unit_def record_event_def
      split: option.splits prod.splits sum.splits)

lemma submit_login_returns:
  "submit_login cfg drv s1 = (Inr (), s2) \<Longrightarrow>
   s2 = s1\<lparr>trace := trace s1 @
          [Goto login_url, PageFill ''#username'' (email cfg),
           PageFill ''#password'' (password cfg), PageClick sel_submit,
           WaitForLoadState ''networkidle'']\<rparr>"
  by (auto simp: submit_login_def io_bind_def call_unit_def record_event_def
      split: option.splits prod.splits sum.splits)

text \<open>
  Claim C6. Suppose the context manager is entered, the page is opened and the
  credentials are submitted without a fault, and after the pacing delay the address of the
  page names neither the feed nor the network page. Then the run raises; the exception is
  the login failure when closing the browser and leaving the context manager raise
  nothing. The events of the run are those of the login followed by the closing of the
  browser and the exit of the context manager: no search navigation. The four lists are
  empty and the counter is zero.
\<close>

theorem failed_login_aborts:
  assumes "call_unit drv Start initial = (Inr (), s0)"
    and "open_page drv s0 = (Inr (), s1)"
    and "submit_login cfg drv s1 = (Inr (), s2)"
    and "\<not> logged_in drv (random_delay drv AfterLogin 2 4 s2)"
  shows "(\<exists>e. fst (run_automation cfg drv) = Inl e) \<and>
    (unit_op drv (trace (random_delay drv AfterLogin 2 4 s2)) Close = None \<longrightarrow>
     unit_op drv (trace (random_delay drv AfterLogin 2 4 s2) @ [Close]) Stop = None \<longrightarrow>
     fst (run_automation cfg drv) = Inl LoginFailed) \<and>
    trace (snd (run_automation cfg drv)) =
      [Start, Launch, NewContext, NewPage, Goto login_url,
       PageFill ''#username'' (email cfg), PageFill ''#password'' (password cfg),
       PageClick sel_submit, WaitForLoadState ''networkidle'',
       Sleep AfterLogin (2 + (4 - 2) * sample drv (trace s2)), Close, Stop] \<and>
    sent (snd (run_automation cfg drv)) = [] \<and>
    would_send (snd (run_automation cfg drv)) = [] \<and>
    skipped (snd (run_automation cfg drv)) = [] \<and>
    errors (snd (run_automation cfg drv)) = [] \<and>
    totalSent (snd (run_automation cfg drv)) = 0"
proof -
  define s3 where "s3 = random_delay drv AfterLogin 2 4 s2"
  have t0: "s0 = initial\<lparr>trace := [Start]\<rparr>"
    using assms(1) by (auto simp: call_unit_def record_event_def initial_def)
  have t1: "s1 = initial\<lparr>trace := [Start, Launch, NewContext, NewPage]\<rparr>"
    using open_page_returns[OF assms(2)] t0 by simp
  have t2: "s2 = initial\<lparr>trace := [Start, Launch, NewContext, NewPage, Goto login_url,
       PageFill ''#username'' (email cfg), PageFill ''#password'' (password cfg),
       PageClick sel_submit, WaitForLoadState ''networkidle'']\<rparr>"
    using submit_login_returns[OF assms(3)] t1 by simp
  have t3: "s3 = s2\<lparr>trace := trace s2 @ [Sleep AfterLogin (2 + (4 - 2) * sample drv (trace s2))]\<rparr>"
    by (simp add: s3_def random_delay_def record_event_def)
  have lg: "login cfg drv s1 =
      ((case unit_op drv (trace s3) Close of None \<Rightarrow> Inl LoginFailed
        | Some m \<Rightarrow> Inl (DriverError m)), record_event Close s3)"
    using assms(3,4) unfolding s3_def[symmetric]
    by (simp add: login_def io_bind_def io_step_def io_raise_def call_unit_def s3_def
        split: option.splits)
  have se: "session cfg drv s0 =
      ((case unit_op drv (trace s3) Close of None \<Rightarrow> Inl LoginFailed
        | Some m \<Rightarrow> Inl (DriverError m)), record_event Close s3)"
    using assms(2) lg by (simp add: session_def io_bind_def split: option.splits)
  have run: "run_automation cfg drv =
      ((case unit_op drv (trace s3 @ [Close]) Stop of
          Some m \<Rightarrow> Inl (DriverError m)
        | None \<Rightarrow> (case unit_op drv (trace s3) Close of None \<Rightarrow> Inl LoginFailed
                   | Some m \<Rightarrow> Inl (DriverError m))),
       record_event Stop (record_event Close s3))"
    using assms(1) se
    by (simp add: run_automation_def call_unit_def record_event_def split: option.splits)
  have "\<exists>e. fst (run_automation cfg drv) = Inl e"
    unfolding run by (simp split: option.splits)
  moreover have "fst (run_automation cfg drv) = Inl LoginFailed"
    if "unit_op drv (trace s3) Close = None" "unit_op drv (trace s3 @ [Close]) Stop = None"
    unfolding run using that by simp
  moreover have "trace (snd (run_automation cfg drv)) =
      [Start, Launch, NewContext, NewPage, Goto login_url,
       PageFill ''#username'' (email cfg), PageFill ''#password'' (password cfg),
       PageClick sel_submit, WaitForLoadState ''networkidle'',
       Sleep AfterLogin (2 + (4 - 2) * sample drv (trace s2)), Close, Stop]"
    unfolding run by (simp add: record_event_def t3) (simp add: t2)
  moreover have "sent (snd (run_automation cfg drv)) = []"
    "would_send (snd (run_automation cfg drv)) = []"
    "skipped (snd (run_automation cfg drv)) = []"
    "errors (snd (run_automation cfg drv)) = []"
    "totalSent (snd (run_automation cfg drv)) = 0"
    unfolding run by (simp_all add: record_event_def t3 t2 initial_def)
  ultimately show ?thesis unfolding s3_def by blast
qed

theorem failed_login_aborts_witness:
  "\<not> logged_in drv_checkpoint
       (random_delay drv_checkpoint AfterLogin 2 4
          (initial\<lparr>trace := [Start, Launch, NewContext, NewPage, Goto login_url,
             PageFill ''#username'' (email cfg_demo), PageFill ''#password'' (password cfg_demo),
             PageClick sel_submit, WaitForLoadState ''networkidle'']\<rparr>)) \<and>
   fst (run_automation cfg_demo drv_checkpoint) = Inl LoginFailed \<and>
   trace (snd (run_automation cfg_demo drv_checkpoint)) = demo_login_trace @ [Close, Stop] \<and>
   errors (snd (run_automation cfg_demo drv_checkpoint)) = [] \<and>
   skipped (snd (run_automation cfg_demo drv_checkpoint)) = []"
proof -
  let ?s0 = "initial\<lparr>trace := [Start]\<rparr>"
  let ?s1 = "initial\<lparr>trace := [Start, Launch, NewContext, NewPage]\<rparr>"
  let ?s2 = "initial\<lparr>trace := [Start, Launch, NewContext, NewPage, Goto login_url,
             PageFill ''#username'' (email cfg_demo), PageFill ''#password'' (password cfg_demo),
             PageClick sel_submit, WaitForLoadState ''networkidle'']\<rparr>"
  have a: "call_unit drv_checkpoint Start initial = (Inr (), ?s0)"
    by (simp add: model_defs demo_defs)
  have b: "open_page drv_checkpoint ?s0 = (Inr (), ?s1)"
    by (simp add: model_defs demo_defs)
  have c: "submit_login cfg_demo drv_checkpoint ?s1 = (Inr (), ?s2)"
    by (simp add: model_defs demo_defs)
  have d: "\<not> logged_in drv_checkpoint (random_delay drv_checkpoint AfterLogin 2 4 ?s2)"
    by (simp add: model_defs demo_defs)
  show ?thesis
    using d failed_login_aborts[OF a b c d]
    by (simp add: model_defs demo_defs)
qed

section \<open>Extraction of a profile from a result entry\<close>



lemma fault_drops_entry:
  "fst (extract_profile drv h s) = Inl e \<Longrightarrow> fst (extract_entry drv h s) = None"
  by (cases "extract_profile drv h s") (auto simp: extract_entry_def)



section \<open>What a dry run records\<close>








end
